theory Spec2Isabelle
  imports Complex_Main "HOL-Library.Multiset"
begin

section \<open>Coffee shop management: orders, stock and reports\<close>

text \<open>
  A shallow embedding of \<^verbatim>\<open>coffee_shop_app.py\<close>. The Streamlit session state is a record
  that every handler takes and returns; each button of a page is one handler, guarded as the
  page guards it. Modelling decisions:
  \<^item> a Python \<^verbatim>\<open>dict\<close> is an association list in insertion order with distinct keys:
    lookup is \<open>map_of\<close>, assignment is \<open>dict_set\<close> (an existing key keeps its position, a
    new key goes to the end);
  \<^item> Python's unbounded \<^verbatim>\<open>int\<close> is \<open>int\<close>; money (a Python \<^verbatim>\<open>float\<close>) is an exact
    rational, so binary rounding is outside the model; additions are kept in the order
    in which the program performs them;
  \<^item> the status strings \<^verbatim>\<open>"pending"\<close>, \<^verbatim>\<open>"completed"\<close>, \<^verbatim>\<open>"cancelled"\<close> are a datatype;
  \<^item> \<^verbatim>\<open>Order.timestamp\<close> is only displayed and is left out;
  \<^item> a message shown with \<^verbatim>\<open>st.error\<close> in place of an action, and a Python exception,
    are values of type \<open>error\<close>.
\<close>

subsection \<open>Dictionaries\<close>

type_synonym ('k, 'v) dict = "('k \<times> 'v) list"

primrec dict_set :: "'k \<Rightarrow> 'v \<Rightarrow> ('k, 'v) dict \<Rightarrow> ('k, 'v) dict" where
  "dict_set k v [] = [(k, v)]"
| "dict_set k v (p # ps) = (if fst p = k then (k, v) # ps else p # dict_set k v ps)"

definition keys :: "('k, 'v) dict \<Rightarrow> 'k list" where
  "keys d = map fst d"

subsection \<open>Data model\<close>

record MenuItem =
  m_name :: string
  m_price :: rat
  m_category :: string
  m_ingredients :: "string list"

record InventoryItem =
  i_name :: string
  i_quantity :: int
  i_unit :: string
  i_min_stock :: int

definition is_low_stock :: "InventoryItem \<Rightarrow> bool" where
  "is_low_stock it = (i_quantity it \<le> i_min_stock it)"

datatype status = Pending | Completed | Cancelled

text \<open>One entry of \<^verbatim>\<open>Order.items\<close>: the dictionary built by \<^verbatim>\<open>Order.add_item\<close>.\<close>

record LineItem =
  l_name :: string
  l_price :: rat
  l_quantity :: int
  l_category :: string
  l_subtotal :: rat

record Order =
  order_id :: int
  customer_name :: string
  items :: "LineItem list"
  total :: rat
  status :: status

definition Order_init :: "int \<Rightarrow> string \<Rightarrow> Order" where
  "Order_init oid customer =
     \<lparr>order_id = oid, customer_name = customer, items = [], total = 0, status = Pending\<rparr>"

definition add_item :: "Order \<Rightarrow> MenuItem \<Rightarrow> int \<Rightarrow> Order" where
  "add_item order menu_item qty =
     order\<lparr>items := items order @
                [\<lparr>l_name = m_name menu_item, l_price = m_price menu_item, l_quantity = qty,
                  l_category = m_category menu_item,
                  l_subtotal = m_price menu_item * of_int qty\<rparr>],
           total := total order + m_price menu_item * of_int qty\<rparr>"

record session_state =
  menu :: "(string, MenuItem) dict"
  inventory :: "(string, InventoryItem) dict"
  orders :: "Order list"
  order_counter :: int
  daily_sales :: rat
  current_order :: "Order option"

datatype validation = NameRequired | PriceNotPositive | CategoryRequired

datatype error =
    KeyError string
  | NotEnough string string
  | ValidationError validation
  | ZeroDivisionError

subsection \<open>Initial session state\<close>

definition default_items :: "MenuItem list" where
  "default_items =
    [\<lparr>m_name = ''Espresso'', m_price = 5 / 2, m_category = ''Coffee'',
       m_ingredients = [''Coffee beans'', ''Water'']\<rparr>,
     \<lparr>m_name = ''Americano'', m_price = 3, m_category = ''Coffee'',
       m_ingredients = [''Coffee beans'', ''Water'']\<rparr>,
     \<lparr>m_name = ''Cappuccino'', m_price = 4, m_category = ''Coffee'',
       m_ingredients = [''Coffee beans'', ''Milk'', ''Water'']\<rparr>,
     \<lparr>m_name = ''Latte'', m_price = 9 / 2, m_category = ''Coffee'',
       m_ingredients = [''Coffee beans'', ''Milk'', ''Water'']\<rparr>,
     \<lparr>m_name = ''Mocha'', m_price = 5, m_category = ''Coffee'',
       m_ingredients = [''Coffee beans'', ''Milk'', ''Chocolate'', ''Water'']\<rparr>,
     \<lparr>m_name = ''Croissant'', m_price = 7 / 2, m_category = ''Pastry'',
       m_ingredients = [''Flour'', ''Butter'']\<rparr>,
     \<lparr>m_name = ''Muffin'', m_price = 11 / 4, m_category = ''Pastry'',
       m_ingredients = [''Flour'', ''Sugar'', ''Eggs'']\<rparr>,
     \<lparr>m_name = ''Green Tea'', m_price = 2, m_category = ''Tea'',
       m_ingredients = [''Tea leaves'', ''Water'']\<rparr>]"

definition setup_default_menu :: "(string, MenuItem) dict \<Rightarrow> (string, MenuItem) dict" where
  "setup_default_menu m = foldl (\<lambda>d item. dict_set (m_name item) item d) m default_items"

definition default_inventory :: "InventoryItem list" where
  "default_inventory =
    [\<lparr>i_name = ''Coffee beans'', i_quantity = 100, i_unit = ''kg'', i_min_stock = 20\<rparr>,
     \<lparr>i_name = ''Milk'', i_quantity = 50, i_unit = ''liters'', i_min_stock = 10\<rparr>,
     \<lparr>i_name = ''Water'', i_quantity = 200, i_unit = ''liters'', i_min_stock = 50\<rparr>,
     \<lparr>i_name = ''Sugar'', i_quantity = 25, i_unit = ''kg'', i_min_stock = 5\<rparr>,
     \<lparr>i_name = ''Chocolate'', i_quantity = 15, i_unit = ''kg'', i_min_stock = 3\<rparr>,
     \<lparr>i_name = ''Flour'', i_quantity = 30, i_unit = ''kg'', i_min_stock = 5\<rparr>,
     \<lparr>i_name = ''Butter'', i_quantity = 10, i_unit = ''kg'', i_min_stock = 2\<rparr>,
     \<lparr>i_name = ''Eggs'', i_quantity = 100, i_unit = ''pieces'', i_min_stock = 20\<rparr>,
     \<lparr>i_name = ''Tea leaves'', i_quantity = 5, i_unit = ''kg'', i_min_stock = 1\<rparr>]"

definition setup_default_inventory ::
  "(string, InventoryItem) dict \<Rightarrow> (string, InventoryItem) dict" where
  "setup_default_inventory stock =
     foldl (\<lambda>d item. dict_set (i_name item) item d) stock default_inventory"

text \<open>\<^verbatim>\<open>init_session_state\<close> on a fresh session: every key is absent and gets its default.\<close>

definition init_session_state :: session_state where
  "init_session_state =
     \<lparr>menu = setup_default_menu [], inventory = setup_default_inventory [], orders = [],
      order_counter = 1, daily_sales = 0, current_order = None\<rparr>"

subsection \<open>Inventory page: the Add/Update form\<close>

text \<open>
  The form acts only when the name and the unit are non-empty and the quantity is positive;
  otherwise it does nothing and shows no message.
\<close>

definition display_inventory_submit ::
  "string \<Rightarrow> int \<Rightarrow> string \<Rightarrow> int \<Rightarrow> session_state \<Rightarrow> session_state" where
  "display_inventory_submit item_name qty unit_label min_stock s =
     (if item_name \<noteq> [] \<and> qty > 0 \<and> unit_label \<noteq> [] then
        (case map_of (inventory s) item_name of
           Some it \<Rightarrow>
             s\<lparr>inventory := dict_set item_name (it\<lparr>i_quantity := i_quantity it + qty\<rparr>)
                               (inventory s)\<rparr>
         | None \<Rightarrow>
             s\<lparr>inventory := dict_set item_name
                               \<lparr>i_name = item_name, i_quantity = qty, i_unit = unit_label,
                                i_min_stock = min_stock\<rparr> (inventory s)\<rparr>)
      else s)"

subsection \<open>Order page\<close>

text \<open>The button "Start New Order" exists only while no order is current.\<close>

definition start_new_order :: "string \<Rightarrow> session_state \<Rightarrow> session_state" where
  "start_new_order customer s =
     (case current_order s of
        None \<Rightarrow> s\<lparr>current_order := Some (Order_init (order_counter s) customer),
                   order_counter := order_counter s + 1\<rparr>
      | Some _ \<Rightarrow> s)"

text \<open>
  The availability loop of "Add to Order": the first ingredient that is in the inventory
  with less than the requested quantity stops the loop (\<^verbatim>\<open>can_make = False; break\<close>);
  an ingredient that is not in the inventory is skipped.
\<close>

fun check_availability ::
  "(string, InventoryItem) dict \<Rightarrow> int \<Rightarrow> string list \<Rightarrow> string option" where
  "check_availability stock qty [] = None"
| "check_availability stock qty (ingredient # rest) =
     (case map_of stock ingredient of
        Some it \<Rightarrow> if i_quantity it < qty then Some ingredient
                   else check_availability stock qty rest
      | None \<Rightarrow> check_availability stock qty rest)"

text \<open>
  The body of "Add to Order" for a given order and menu item: the order with the new line,
  or the message "Cannot make ...: Not enough ...".
\<close>

definition add_line ::
  "(string, InventoryItem) dict \<Rightarrow> Order \<Rightarrow> string \<Rightarrow> MenuItem \<Rightarrow> int \<Rightarrow> error + Order" where
  "add_line stock order selected_item menu_item qty =
     (case check_availability stock qty (m_ingredients menu_item) of
        Some ingredient \<Rightarrow> Inl (NotEnough selected_item ingredient)
      | None \<Rightarrow> Inr (add_item order menu_item qty))"

text \<open>
  The button "Add to Order": it exists only while an order is current, and does nothing
  when the select box holds its empty first entry.
\<close>

definition add_to_order :: "string \<Rightarrow> int \<Rightarrow> session_state \<Rightarrow> error + session_state" where
  "add_to_order selected_item qty s =
     (case current_order s of
        None \<Rightarrow> Inr s
      | Some order \<Rightarrow>
          if selected_item = [] then Inr s
          else (case map_of (menu s) selected_item of
                  None \<Rightarrow> Inl (KeyError selected_item)
                | Some menu_item \<Rightarrow>
                    (case add_line (inventory s) order selected_item menu_item qty of
                       Inl e \<Rightarrow> Inl e
                     | Inr order' \<Rightarrow> Inr (s\<lparr>current_order := Some order'\<rparr>))))"

text \<open>
  \<^verbatim>\<open>complete_order\<close>: the inner loop takes the line's quantity from every ingredient of the
  recipe that is in the inventory; the outer loop looks each line's menu item up in the
  menu as it is now, and raises \<^verbatim>\<open>KeyError\<close> when it is missing.
\<close>

fun deduct_ingredients ::
  "int \<Rightarrow> string list \<Rightarrow> (string, InventoryItem) dict \<Rightarrow> (string, InventoryItem) dict" where
  "deduct_ingredients qty [] stock = stock"
| "deduct_ingredients qty (ingredient # rest) stock =
     deduct_ingredients qty rest
       (case map_of stock ingredient of
          Some it \<Rightarrow> dict_set ingredient (it\<lparr>i_quantity := i_quantity it - qty\<rparr>) stock
        | None \<Rightarrow> stock)"

fun deduct_items ::
  "(string, MenuItem) dict \<Rightarrow> LineItem list \<Rightarrow> (string, InventoryItem) dict \<Rightarrow>
   error + (string, InventoryItem) dict" where
  "deduct_items mn [] stock = Inr stock"
| "deduct_items mn (item # rest) stock =
     (case map_of mn (l_name item) of
        None \<Rightarrow> Inl (KeyError (l_name item))
      | Some menu_item \<Rightarrow>
          deduct_items mn rest
            (deduct_ingredients (l_quantity item) (m_ingredients menu_item) stock))"

text \<open>
  The order object is shared by the caller's variable, the slot \<^verbatim>\<open>current_order\<close> and the
  history; the model writes the finished order into the history, and the page clears the slot
  right after the call.
\<close>

definition complete_order :: "Order \<Rightarrow> session_state \<Rightarrow> error + session_state" where
  "complete_order order s =
     (case deduct_items (menu s) (items order) (inventory s) of
        Inl e \<Rightarrow> Inl e
      | Inr stock' \<Rightarrow>
          Inr (s\<lparr>inventory := stock',
                 orders := orders s @ [order\<lparr>status := Completed\<rparr>],
                 daily_sales := daily_sales s + total order\<rparr>))"

definition cancel_order :: "Order \<Rightarrow> session_state \<Rightarrow> session_state" where
  "cancel_order order s = s\<lparr>orders := orders s @ [order\<lparr>status := Cancelled\<rparr>]\<rparr>"

text \<open>
  The buttons "Complete Order" and "Cancel Order" exist only while an order is current and
  has at least one line; both empty the slot afterwards.
\<close>

definition complete_click :: "session_state \<Rightarrow> error + session_state" where
  "complete_click s =
     (case current_order s of
        None \<Rightarrow> Inr s
      | Some order \<Rightarrow>
          if items order = [] then Inr s
          else (case complete_order order s of
                  Inl e \<Rightarrow> Inl e
                | Inr s' \<Rightarrow> Inr (s'\<lparr>current_order := None\<rparr>)))"

definition cancel_click :: "session_state \<Rightarrow> session_state" where
  "cancel_click s =
     (case current_order s of
        None \<Rightarrow> s
      | Some order \<Rightarrow>
          if items order = [] then s
          else (cancel_order order s)\<lparr>current_order := None\<rparr>)"

subsection \<open>Menu page: the Add Menu Item form\<close>

text \<open>
  Strings are lists of 8-bit characters. \<^verbatim>\<open>str.strip\<close> removes the white space of that
  range from both ends; \<^verbatim>\<open>str.split('\n')\<close> cuts at every line feed and keeps empty pieces.
\<close>

definition isspace :: "char \<Rightarrow> bool" where
  "isspace c = ((of_char c :: nat) \<in> set [9, 10, 11, 12, 13, 28, 29, 30, 31, 32, 133, 160])"

definition strip :: "string \<Rightarrow> string" where
  "strip txt = rev (dropWhile isspace (rev (dropWhile isspace txt)))"

fun split_newline :: "string \<Rightarrow> string list" where
  "split_newline [] = [] # []"
| "split_newline (c # cs) =
     (if c = CHR 0x0A then [] # split_newline cs
      else (case split_newline cs of
              [] \<Rightarrow> [c] # []
            | w # ws \<Rightarrow> (c # w) # ws))"

definition ingredient_list :: "string \<Rightarrow> string list" where
  "ingredient_list txt = map strip (filter (\<lambda>ing. strip ing \<noteq> []) (split_newline txt))"

text \<open>
  The submitted form: three checks, each ending the handler with a message, then the
  assignment \<^verbatim>\<open>menu[name] = MenuItem(...)\<close>, whether or not the name is already there.
\<close>

definition add_menu_item_page ::
  "string \<Rightarrow> rat \<Rightarrow> string \<Rightarrow> string \<Rightarrow> session_state \<Rightarrow> error + session_state" where
  "add_menu_item_page name price category ingredients s =
     (if name = [] then Inl (ValidationError NameRequired)
      else if price \<le> 0 then Inl (ValidationError PriceNotPositive)
      else if category = [] then Inl (ValidationError CategoryRequired)
      else Inr (s\<lparr>menu := dict_set name
                             \<lparr>m_name = name, m_price = price, m_category = category,
                              m_ingredients = ingredient_list ingredients\<rparr> (menu s)\<rparr>))"

subsection \<open>Daily report\<close>

definition truediv :: "rat \<Rightarrow> int \<Rightarrow> error + rat" where
  "truediv a b = (if b = 0 then Inl ZeroDivisionError else Inr (a / of_int b))"

definition completed_orders :: "Order list \<Rightarrow> Order list" where
  "completed_orders os = filter (\<lambda>od. status od = Completed) os"

record metrics =
  total_orders :: int
  total_sales :: rat
  average_order :: rat

text \<open>
  The three metrics. Total sales is the accumulator \<^verbatim>\<open>daily_sales\<close>, not a sum over the
  history; the average is computed only when there is a completed order, and shown as
  \<^verbatim>\<open>$0.00\<close> otherwise.
\<close>

definition daily_report :: "session_state \<Rightarrow> error + metrics" where
  "daily_report s =
     (let completed = completed_orders (orders s) in
      case (if completed \<noteq> [] then truediv (daily_sales s) (int (length completed))
            else Inr 0) of
        Inl e \<Rightarrow> Inl e
      | Inr avg_order \<Rightarrow>
          Inr \<lparr>total_orders = int (length completed), total_sales = daily_sales s,
               average_order = avg_order\<rparr>)"

text \<open>
  Popular items: \<^verbatim>\<open>item_count[name] = item_count.get(name, 0) + item['quantity']\<close> over the
  lines of the completed orders, in order.
\<close>

fun count_lines :: "LineItem list \<Rightarrow> (string, int) dict \<Rightarrow> (string, int) dict" where
  "count_lines [] item_count = item_count"
| "count_lines (item # rest) item_count =
     count_lines rest
       (dict_set (l_name item)
          ((case map_of item_count (l_name item) of None \<Rightarrow> 0 | Some c \<Rightarrow> c) + l_quantity item)
          item_count)"

fun count_orders :: "Order list \<Rightarrow> (string, int) dict \<Rightarrow> (string, int) dict" where
  "count_orders [] item_count = item_count"
| "count_orders (order # rest) item_count =
     count_orders rest (count_lines (items order) item_count)"

text \<open>
  The table is then sorted by \<^verbatim>\<open>DataFrame.sort_values('Quantity Sold', ascending=False)\<close>,
  a function of the pandas library; it is a parameter here, and \<open>sort_values_descending\<close>
  below is what the library computes. Nothing is shown (\<open>None\<close>) when there is no completed
  order or no counted item.
\<close>

definition popular_items ::
  "((string, int) dict \<Rightarrow> (string, int) dict) \<Rightarrow> Order list \<Rightarrow> (string, int) dict option" where
  "popular_items sort_values os =
     (let completed = completed_orders os in
      if completed \<noteq> [] then
        (let item_count = count_orders completed [] in
         if item_count \<noteq> [] then Some (sort_values item_count) else None)
      else None)"

subsection \<open>The sort of the popular items table\<close>

text \<open>
  \<^verbatim>\<open>sort_values\<close> is called with one column, \<^verbatim>\<open>ascending=False\<close> and the default
  \<^verbatim>\<open>kind='quicksort'\<close>. What follows is modelled from the libraries the program calls, for a
  column of integers: pandas computes the row order as the reverse of numpy's \<^verbatim>\<open>argsort\<close> of
  the reversed column, and numpy's \<^verbatim>\<open>argsort\<close> of kind quicksort is, in its portable form, an
  introsort on an array of row indices: quicksort with a median of three as pivot on ranges
  of more than 17 entries, insertion sort on shorter ranges, and heapsort on a range that is
  taken from the stack after the depth limit is used up.
\<close>

definition INTP_SWAP :: "nat \<Rightarrow> nat \<Rightarrow> nat list \<Rightarrow> nat list" where
  "INTP_SWAP i j a = a[i := a ! j, j := a ! i]"

text \<open>The depth limit is twice the position of the highest bit of the length.\<close>

fun npy_get_msb :: "nat \<Rightarrow> nat" where
  "npy_get_msb n = (if n < 2 then 0 else Suc (npy_get_msb (n div 2)))"

declare npy_get_msb.simps [simp del]

text \<open>
  The two scans of the partition loop: \<^verbatim>\<open>do ++pi while (v[*pi] < vp)\<close> is \<open>scan_up\<close> from
  the next index, \<^verbatim>\<open>do --pj while (vp < v[*pj])\<close> is \<open>scan_down\<close> from the previous one. The
  pivot and the median step leave an entry at each end that stops the scan inside the range;
  the bounds of the array stop it here where the C code has no check.
\<close>

function scan_up :: "int list \<Rightarrow> nat list \<Rightarrow> int \<Rightarrow> nat \<Rightarrow> nat" where
  "scan_up v a vp i =
     (if i < length a \<and> v ! (a ! i) < vp then scan_up v a vp (i + 1) else i)"
  by pat_completeness auto
termination
  by (relation "measure (\<lambda>(v, a, vp, i). length a - i)") auto

declare scan_up.simps [simp del]

fun scan_down :: "int list \<Rightarrow> nat list \<Rightarrow> int \<Rightarrow> nat \<Rightarrow> nat" where
  "scan_down v a vp 0 = 0"
| "scan_down v a vp (Suc j) =
     (if vp < v ! (a ! Suc j) then scan_down v a vp j else Suc j)"

lemma scan_up_ge: "i \<le> scan_up v a vp i"
proof (induction v a vp i rule: scan_up.induct)
  case (1 v a vp i)
  show ?case
  proof (cases "i < length a \<and> v ! (a ! i) < vp")
    case True
    with 1 have "i + 1 \<le> scan_up v a vp (i + 1)" by simp
    with True show ?thesis by (subst scan_up.simps) simp
  next
    case False
    then show ?thesis by (subst scan_up.simps) auto
  qed
qed

lemma scan_down_le: "scan_down v a vp j \<le> j"
  by (induction j) auto

lemma scan_up_le:
  "s \<le> k \<Longrightarrow> (k < length a \<longrightarrow> \<not> v ! (a ! k) < vp) \<Longrightarrow> scan_up v a vp s \<le> k"
proof (induction v a vp s rule: scan_up.induct)
  case (1 v a vp i)
  show ?case
  proof (cases "i < length a \<and> v ! (a ! i) < vp")
    case True
    with 1(3) have "i \<noteq> k" by auto
    with 1(2) have "i + 1 \<le> k" by simp
    with 1(1) [OF True] 1(3) have "scan_up v a vp (i + 1) \<le> k" by simp
    with True show ?thesis by (subst scan_up.simps) simp
  next
    case False
    with 1(2) show ?thesis by (subst scan_up.simps) auto
  qed
qed

lemma scan_up_stop:
  "scan_up v a vp s < length a \<Longrightarrow> \<not> v ! (a ! scan_up v a vp s) < vp"
proof (induction v a vp s rule: scan_up.induct)
  case (1 v a vp i)
  show ?case
  proof (cases "i < length a \<and> v ! (a ! i) < vp")
    case True
    then have e: "scan_up v a vp i = scan_up v a vp (i + 1)" by (subst scan_up.simps) simp
    with 1 True show ?thesis by simp
  next
    case False
    then have e: "scan_up v a vp i = i" by (subst scan_up.simps) auto
    with 1(2) False show ?thesis by auto
  qed
qed

lemma length_INTP_SWAP [simp]: "length (INTP_SWAP i j a) = length a"
  by (simp add: INTP_SWAP_def)

text \<open>The loop \<^verbatim>\<open>for (;;)\<close> of the partition: scan, stop when the scans meet, swap.\<close>

function partition_loop ::
  "int list \<Rightarrow> int \<Rightarrow> nat list \<Rightarrow> nat \<Rightarrow> nat \<Rightarrow> nat list \<times> nat" where
  "partition_loop v vp a i j =
     (let i' = scan_up v a vp (i + 1); j' = scan_down v a vp (j - 1)
      in if i' \<ge> j' then (a, i')
         else partition_loop v vp (INTP_SWAP i' j' a) i' j')"
  by pat_completeness auto
termination
proof (relation "measure (\<lambda>(v, vp, a, i, j). j - i)")
  show "wf (measure (\<lambda>(v, vp, a, i, j). j - i))" by simp
next
  fix v :: "int list" and vp :: int and a :: "nat list" and i j x xa :: nat
  assume x: "x = scan_up v a vp (i + 1)" and xa: "xa = scan_down v a vp (j - 1)"
    and n: "\<not> xa \<le> x"
  have "i + 1 \<le> x" using x scan_up_ge by simp
  moreover have "xa \<le> j - 1" using xa scan_down_le by simp
  ultimately show "((v, vp, INTP_SWAP x xa a, x, xa), v, vp, a, i, j)
        \<in> measure (\<lambda>(v, vp, a, i, j). j - i)"
    using n by simp
qed

declare partition_loop.simps [simp del]

lemma partition_loop_bounds:
  "i < j \<Longrightarrow> (j < length a \<longrightarrow> \<not> v ! (a ! j) < vp) \<Longrightarrow>
   i < snd (partition_loop v vp a i j) \<and> snd (partition_loop v vp a i j) \<le> j"
proof (induction v vp a i j rule: partition_loop.induct)
  case (1 v vp a i j)
  define i' where "i' = scan_up v a vp (i + 1)"
  define j' where "j' = scan_down v a vp (j - 1)"
  have i1: "i + 1 \<le> i'" unfolding i'_def by (rule scan_up_ge)
  have i2: "i' \<le> j" unfolding i'_def using 1(2,3) by (intro scan_up_le) auto
  have j1: "j' \<le> j - 1" unfolding j'_def by (rule scan_down_le)
  show ?case
  proof (cases "j' \<le> i'")
    case True
    then have "partition_loop v vp a i j = (a, i')"
      by (subst partition_loop.simps) (simp add: i'_def j'_def Let_def)
    with i1 i2 show ?thesis by simp
  next
    case False
    then have e: "partition_loop v vp a i j = partition_loop v vp (INTP_SWAP i' j' a) i' j'"
      by (subst partition_loop.simps) (simp add: i'_def j'_def Let_def)
    have lt: "i' < j'" using False by simp
    have sent: "j' < length (INTP_SWAP i' j' a) \<longrightarrow> \<not> v ! (INTP_SWAP i' j' a ! j') < vp"
    proof
      assume "j' < length (INTP_SWAP i' j' a)"
      then have jl: "j' < length a" by simp
      with lt have il: "i' < length a" by simp
      have "INTP_SWAP i' j' a ! j' = a ! i'" using jl by (simp add: INTP_SWAP_def)
      moreover have "\<not> v ! (a ! i') < vp" using il scan_up_stop [of v a vp "i + 1"]
        by (simp add: i'_def)
      ultimately show "\<not> v ! (INTP_SWAP i' j' a ! j') < vp" by simp
    qed
    have "i' < snd (partition_loop v vp (INTP_SWAP i' j' a) i' j') \<and>
          snd (partition_loop v vp (INTP_SWAP i' j' a) i' j') \<le> j'"
      using 1(1) [OF i'_def j'_def False lt sent] .
    with i1 j1 show ?thesis unfolding e by linarith
  qed
qed

text \<open>
  One partition of the range from \<open>pl\<close> to \<open>pr\<close>: the median of the first, middle and last
  entry becomes the pivot and is parked at \<open>pr - 1\<close>; after the loop it is put at the index
  where the scans met, which is returned.
\<close>

definition partition_step :: "int list \<Rightarrow> nat \<Rightarrow> nat \<Rightarrow> nat list \<Rightarrow> nat list \<times> nat" where
  "partition_step v pl pr a =
     (let pm = pl + (pr - pl) div 2;
          a1 = (if v ! (a ! pm) < v ! (a ! pl) then INTP_SWAP pm pl a else a);
          a2 = (if v ! (a1 ! pr) < v ! (a1 ! pm) then INTP_SWAP pr pm a1 else a1);
          a3 = (if v ! (a2 ! pm) < v ! (a2 ! pl) then INTP_SWAP pm pl a2 else a2);
          vp = v ! (a3 ! pm);
          r = partition_loop v vp (INTP_SWAP pm (pr - 1) a3) pl (pr - 1)
      in (INTP_SWAP (snd r) (pr - 1) (fst r), snd r))"

lemma sentinel_swap:
  fixes v :: "int list"
  shows "k < length (INTP_SWAP m k b) \<longrightarrow> \<not> v ! (INTP_SWAP m k b ! k) < v ! (b ! m)"
  by (simp add: INTP_SWAP_def)

lemma partition_step_bounds:
  assumes "16 < pr - pl"
  shows "pl < snd (partition_step v pl pr a) \<and> snd (partition_step v pl pr a) \<le> pr - 1"
  unfolding partition_step_def Let_def snd_conv
proof (rule partition_loop_bounds)
  show "pl < pr - 1" using assms by simp
qed (rule sentinel_swap)

text \<open>
  Insertion sort of a range, as the C loop has it: each entry moves down past the entries
  with a strictly greater value.
\<close>

fun shift_up :: "int list \<Rightarrow> int \<Rightarrow> nat \<Rightarrow> nat \<Rightarrow> nat list \<Rightarrow> nat list \<times> nat" where
  "shift_up v vp pl 0 a = (a, 0)"
| "shift_up v vp pl (Suc pk) a =
     (if pl < Suc pk \<and> vp < v ! (a ! pk) then shift_up v vp pl pk (a[Suc pk := a ! pk])
      else (a, Suc pk))"

definition insert_one :: "int list \<Rightarrow> nat \<Rightarrow> nat list \<Rightarrow> nat \<Rightarrow> nat list" where
  "insert_one v pl a i =
     (let vi = a ! i; vp = v ! vi; r = shift_up v vp pl i a in (fst r)[snd r := vi])"

definition insertion_sort :: "int list \<Rightarrow> nat \<Rightarrow> nat \<Rightarrow> nat list \<Rightarrow> nat list" where
  "insertion_sort v pl pr a = foldl (insert_one v pl) a [pl + 1 ..< pr + 1]"

text \<open>
  Heapsort of the \<open>n\<close> entries from \<open>pl\<close> on; the heap is indexed from 1, as in the C code
  (\<^verbatim>\<open>a = tosort - 1\<close>). The loop of \<open>sift\<close> never starts with \<open>j = 0\<close>.
\<close>

function sift ::
  "int list \<Rightarrow> nat \<Rightarrow> nat \<Rightarrow> nat \<Rightarrow> nat \<Rightarrow> nat \<Rightarrow> nat list \<Rightarrow> nat list" where
  "sift v pl n tmp i j a =
     (if 0 < j \<and> j \<le> n then
        (let j' = (if j < n \<and> v ! (a ! (pl + j - 1)) < v ! (a ! (pl + j)) then j + 1 else j)
         in if v ! tmp < v ! (a ! (pl + j' - 1))
            then sift v pl n tmp j' (j' + j') (a[pl + i - 1 := a ! (pl + j' - 1)])
            else a[pl + i - 1 := tmp])
      else a[pl + i - 1 := tmp])"
  by pat_completeness auto
termination
  by (relation "measure (\<lambda>(v, pl, n, tmp, i, j, a). n + 1 - j)") auto

declare sift.simps [simp del]

definition aheapsort :: "int list \<Rightarrow> nat \<Rightarrow> nat \<Rightarrow> nat list \<Rightarrow> nat list" where
  "aheapsort v pl n a =
     (let heap = foldl (\<lambda>b l. sift v pl n (b ! (pl + l - 1)) l (2 * l) b) a
                   (rev [1 ..< n div 2 + 1])
      in foldl (\<lambda>b m. sift v pl (m - 1) (b ! (pl + m - 1)) 1 2
                         (b[pl + m - 1 := b ! pl]))
           heap (rev [2 ..< n + 1]))"

text \<open>
  The main loop. The C code continues with the smaller side of a partition and pushes the
  larger one, with the decremented depth, on a stack; a range is checked against the depth
  limit only when it is taken from the stack (\<open>popped\<close>), or at the start. The ranges are
  disjoint, so the order in which they are sorted does not matter.
\<close>

function introsort ::
  "int list \<Rightarrow> bool \<Rightarrow> int \<Rightarrow> nat \<Rightarrow> nat \<Rightarrow> nat list \<Rightarrow> nat list" where
  "introsort v popped cdepth pl pr a =
     (if popped \<and> cdepth < 0 then aheapsort v pl (pr + 1 - pl) a
      else if 16 < pr - pl then
        (let r = partition_step v pl pr a; i = snd r; cdepth' = cdepth - 1 in
         if i - pl < pr - i
         then introsort v True cdepth' (i + 1) pr (introsort v False cdepth' pl (i - 1) (fst r))
         else introsort v True cdepth' pl (i - 1) (introsort v False cdepth' (i + 1) pr (fst r)))
      else insertion_sort v pl pr a)"
  by pat_completeness auto
termination
  apply (relation "measure (\<lambda>(v, popped, cdepth, pl, pr, a). pr + 1 - pl)")
  apply (auto simp: Let_def)
  apply (frule_tac v = v and a = a in partition_step_bounds, linarith)+
  done

declare introsort.simps [simp del]

definition aquicksort :: "int list \<Rightarrow> nat list" where
  "aquicksort v =
     introsort v True (2 * int (npy_get_msb (length v))) 0 (length v - 1) [0 ..< length v]"

text \<open>
  pandas, \<^verbatim>\<open>nargsort\<close> with \<^verbatim>\<open>ascending=False\<close> (a column of integers has no missing
  values): the column and the row numbers are reversed, sorted ascending, and the resulting
  order is reversed. \<^verbatim>\<open>sort_values\<close> then takes the rows in that order.
\<close>

definition nargsort_descending :: "int list \<Rightarrow> nat list" where
  "nargsort_descending vals =
     (let non_nans = rev vals;
          non_nan_idx = rev [0 ..< length vals];
          indexer = map (\<lambda>k. non_nan_idx ! k) (aquicksort non_nans)
      in rev indexer)"

definition sort_values_descending :: "(string, int) dict \<Rightarrow> (string, int) dict" where
  "sort_values_descending d = map (\<lambda>k. d ! k) (nargsort_descending (map snd d))"

subsection \<open>Sessions: sequences of user actions\<close>

datatype event =
    StartNewOrder string
  | AddToOrder string int
  | CompleteOrder
  | CancelOrder
  | AddMenuItem string rat string string
  | UpdateInventory string int string int

fun step :: "event \<Rightarrow> session_state \<Rightarrow> error + session_state" where
  "step (StartNewOrder customer) s = Inr (start_new_order customer s)"
| "step (AddToOrder selected_item qty) s = add_to_order selected_item qty s"
| "step CompleteOrder s = complete_click s"
| "step CancelOrder s = Inr (cancel_click s)"
| "step (AddMenuItem name price category ingredients) s =
     add_menu_item_page name price category ingredients s"
| "step (UpdateInventory item_name qty unit_label min_stock) s =
     Inr (display_inventory_submit item_name qty unit_label min_stock s)"

text \<open>
  A rejected action (a message instead of a change) leaves the session as it was and the
  user goes on; a \<^verbatim>\<open>KeyError\<close> ends the run.
\<close>

fun run :: "event list \<Rightarrow> session_state \<Rightarrow> error + session_state" where
  "run [] s = Inr s"
| "run (e # es) s =
     (case step e s of
        Inr s' \<Rightarrow> run es s'
      | Inl (KeyError k) \<Rightarrow> Inl (KeyError k)
      | Inl _ \<Rightarrow> run es s)"

inductive reachable :: "session_state \<Rightarrow> bool" where
  reachable_init: "reachable init_session_state"
| reachable_step: "reachable s \<Longrightarrow> step e s = Inr s' \<Longrightarrow> reachable s'"

definition is_order_event :: "event \<Rightarrow> bool" where
  "is_order_event e =
     (case e of StartNewOrder _ \<Rightarrow> True | AddToOrder _ _ \<Rightarrow> True | CompleteOrder \<Rightarrow> True
      | CancelOrder \<Rightarrow> True | _ \<Rightarrow> False)"

subsection \<open>Notions used in the statements\<close>


text \<open>A sequence of calls of \<^verbatim>\<open>Order.add_item\<close> on one order.\<close>

definition add_items :: "Order \<Rightarrow> (MenuItem \<times> int) list \<Rightarrow> Order" where
  "add_items od ls = foldl (\<lambda>od' (menu_item, qty). add_item od' menu_item qty) od ls"

text \<open>
  An ingredient is deficient for a requested quantity when it is in the inventory with a
  smaller quantity.
\<close>

definition deficient :: "(string, InventoryItem) dict \<Rightarrow> int \<Rightarrow> string \<Rightarrow> bool" where
  "deficient stock qty ingredient =
     (case map_of stock ingredient of Some it \<Rightarrow> i_quantity it < qty | None \<Rightarrow> False)"

text \<open>The session after one order of three Espresso has been completed.\<close>

definition espresso_session :: session_state where
  "espresso_session =
     (case run [StartNewOrder ''Walk-in'', AddToOrder ''Espresso'' 3, CompleteOrder]
             init_session_state of
        Inr s \<Rightarrow> s
      | Inl _ \<Rightarrow> init_session_state)"


text \<open>
  The order in the slot is pending and the orders of the history are not; the accumulator
  \<^verbatim>\<open>daily_sales\<close> is the sum of the totals of the completed orders, added in history order.
\<close>

definition order_states_ok :: "session_state \<Rightarrow> bool" where
  "order_states_ok s =
     (list_all (\<lambda>od. status od \<noteq> Pending) (orders s) \<and>
      (case current_order s of None \<Rightarrow> True | Some od \<Rightarrow> status od = Pending))"

definition sales_ok :: "session_state \<Rightarrow> bool" where
  "sales_ok s = (daily_sales s = sum_list (map total (completed_orders (orders s))))"

text \<open>Every menu entry is stored under its own name.\<close>

definition menu_names_ok :: "session_state \<Rightarrow> bool" where
  "menu_names_ok s = list_all (\<lambda>(k, menu_item). m_name menu_item = k) (menu s)"

text \<open>
  A session in which the recipe of Espresso is edited between adding a line and completing
  the order.
\<close>

definition recipe_edit_s0 :: session_state where
  "recipe_edit_s0 = start_new_order ''Walk-in'' init_session_state"

definition recipe_edit_s1 :: session_state where
  "recipe_edit_s1 =
     (case step (AddToOrder ''Espresso'' 3) recipe_edit_s0 of
        Inr s \<Rightarrow> s | Inl _ \<Rightarrow> recipe_edit_s0)"

definition recipe_edit_s2 :: session_state where
  "recipe_edit_s2 =
     (case step (AddMenuItem ''Espresso'' 9 ''Special'' ''Milk'') recipe_edit_s1 of
        Inr s \<Rightarrow> s | Inl _ \<Rightarrow> recipe_edit_s1)"

definition recipe_edit_s3 :: session_state where
  "recipe_edit_s3 =
     (case step CompleteOrder recipe_edit_s2 of Inr s \<Rightarrow> s | Inl _ \<Rightarrow> recipe_edit_s2)"

text \<open>
  The quantity the inventory holds of an ingredient, if it holds it; the quantity of an
  ingredient that the recipes of orders use, a line counting its quantity once for each time
  the ingredient is listed in the recipe of its menu item.
\<close>

definition stock_of :: "(string, InventoryItem) dict \<Rightarrow> string \<Rightarrow> int option" where
  "stock_of stock ingredient = map_option i_quantity (map_of stock ingredient)"

definition line_uses :: "(string, MenuItem) dict \<Rightarrow> string \<Rightarrow> LineItem \<Rightarrow> int" where
  "line_uses mn ingredient l =
     (case map_of mn (l_name l) of
        None \<Rightarrow> 0
      | Some menu_item \<Rightarrow> l_quantity l * int (count_list (m_ingredients menu_item) ingredient))"

definition consumed :: "(string, MenuItem) dict \<Rightarrow> string \<Rightarrow> Order list \<Rightarrow> int" where
  "consumed mn ingredient os =
     sum_list (map (\<lambda>od. sum_list (map (line_uses mn ingredient) (items od))) os)"

text \<open>A session with two completed orders, a cancelled one and a rejected line.\<close>

definition two_orders_session :: session_state where
  "two_orders_session =
     (case run [StartNewOrder ''Ada'', AddToOrder ''Espresso'' 3, CompleteOrder,
                StartNewOrder ''Bob'', AddToOrder ''Latte'' 2, CancelOrder,
                StartNewOrder ''Cy'', AddToOrder ''Green Tea'' 6, AddToOrder ''Espresso'' 1,
                CompleteOrder]
             init_session_state of
        Inr s \<Rightarrow> s
      | Inl _ \<Rightarrow> init_session_state)"

text \<open>
  The lines of the completed orders of a history, in order, and the quantity sold of an item
  name: the sum of the quantities of the lines with that name.
\<close>

definition sold_lines :: "Order list \<Rightarrow> LineItem list" where
  "sold_lines os = concat (map items (completed_orders os))"

definition name_total :: "LineItem list \<Rightarrow> string \<Rightarrow> int" where
  "name_total ls n = sum_list (map l_quantity (filter (\<lambda>l. l_name l = n) ls))"

definition quantity_sold :: "Order list \<Rightarrow> string \<Rightarrow> int" where
  "quantity_sold os n = name_total (sold_lines os) n"

text \<open>
  What \<^verbatim>\<open>sort_values(..., ascending=False)\<close> promises for a table: its rows, rearranged so
  that the quantities do not increase. The order of rows with equal quantities is not part of
  the promise.
\<close>

definition sorts_table ::
  "((string, int) dict \<Rightarrow> (string, int) dict) \<Rightarrow> (string, int) dict \<Rightarrow> bool" where
  "sorts_table sort_values d =
     (mset (sort_values d) = mset d \<and> sorted_wrt (\<lambda>a b. snd b \<le> snd a) (sort_values d))"

text \<open>
  A session in which ten items are added to the menu and one order with one of each of the
  eighteen items is completed; and a completed order of two Muffin and one Latte.
\<close>

definition tie_actions :: "event list" where
  "tie_actions =
       [AddMenuItem ''Bagel'' 3 ''Pastry'' [], AddMenuItem ''Brownie'' 3 ''Pastry'' [],
        AddMenuItem ''Cookie'' 3 ''Pastry'' [], AddMenuItem ''Donut'' 3 ''Pastry'' [],
        AddMenuItem ''Scone'' 3 ''Pastry'' [], AddMenuItem ''Chai'' 3 ''Tea'' [],
        AddMenuItem ''Cocoa'' 3 ''Coffee'' [], AddMenuItem ''Cortado'' 3 ''Coffee'' [],
        AddMenuItem ''Macchiato'' 3 ''Coffee'' [],
        AddMenuItem ''Affogato'' 3 ''Coffee'' [], StartNewOrder ''Walk-in'',
        AddToOrder ''Espresso'' 1, AddToOrder ''Americano'' 1, AddToOrder ''Cappuccino'' 1,
        AddToOrder ''Latte'' 1, AddToOrder ''Mocha'' 1, AddToOrder ''Croissant'' 1,
        AddToOrder ''Muffin'' 1, AddToOrder ''Green Tea'' 1, AddToOrder ''Bagel'' 1,
        AddToOrder ''Brownie'' 1, AddToOrder ''Cookie'' 1, AddToOrder ''Donut'' 1,
        AddToOrder ''Scone'' 1, AddToOrder ''Chai'' 1, AddToOrder ''Cocoa'' 1,
        AddToOrder ''Cortado'' 1, AddToOrder ''Macchiato'' 1, AddToOrder ''Affogato'' 1,
        CompleteOrder]"

definition tie_session :: session_state where
  "tie_session =
     (case run tie_actions init_session_state of
        Inr s \<Rightarrow> s
      | Inl _ \<Rightarrow> init_session_state)"

definition muffin_latte_order :: "int \<Rightarrow> Order" where
  "muffin_latte_order oid =
     (add_items (Order_init oid ''Walk-in'')
        [(\<lparr>m_name = ''Muffin'', m_price = 11 / 4, m_category = ''Pastry'',
           m_ingredients = [''Flour'', ''Sugar'', ''Eggs'']\<rparr>, 2),
         (\<lparr>m_name = ''Latte'', m_price = 9 / 2, m_category = ''Coffee'',
           m_ingredients = [''Coffee beans'', ''Milk'', ''Water'']\<rparr>, 1)])
     \<lparr>status := Completed\<rparr>"

text \<open>Every line of the current order names an entry of the menu.\<close>

definition lines_known :: "session_state \<Rightarrow> bool" where
  "lines_known s =
     (case current_order s of
        None \<Rightarrow> True
      | Some od \<Rightarrow> list_all (\<lambda>l. map_of (menu s) (l_name l) \<noteq> None) (items od))"

section \<open>Properties\<close>

subsection \<open>Dictionaries and the initial state\<close>

lemma map_of_dict_set: "map_of (dict_set k v d) = (map_of d)(k \<mapsto> v)"
  by (induction d) (auto simp: fun_eq_iff)

lemma keys_dict_set:
  "keys (dict_set k v d) = (if k \<in> set (keys d) then keys d else keys d @ [k])"
  by (induction d) (auto simp: keys_def)

lemma init_menu_Espresso:
  "map_of (menu init_session_state) ''Espresso'' =
     Some \<lparr>m_name = ''Espresso'', m_price = 5 / 2, m_category = ''Coffee'',
           m_ingredients = [''Coffee beans'', ''Water'']\<rparr>"
  by (simp add: init_session_state_def setup_default_menu_def default_items_def)

lemma init_inventory_Coffee_beans:
  "map_of (inventory init_session_state) ''Coffee beans'' =
     Some \<lparr>i_name = ''Coffee beans'', i_quantity = 100, i_unit = ''kg'', i_min_stock = 20\<rparr>"
  by (simp add: init_session_state_def setup_default_inventory_def default_inventory_def)

lemma init_inventory_Water:
  "map_of (inventory init_session_state) ''Water'' =
     Some \<lparr>i_name = ''Water'', i_quantity = 200, i_unit = ''liters'', i_min_stock = 50\<rparr>"
  by (simp add: init_session_state_def setup_default_inventory_def default_inventory_def)

lemma init_fresh:
  "current_order init_session_state = None" "order_counter init_session_state = 1"
  "daily_sales init_session_state = 0" "orders init_session_state = []"
  by (simp_all add: init_session_state_def)

subsection \<open>The Espresso scenario\<close>

text \<open>
  Claim C6. Whenever the menu holds Espresso at 2.50 with the recipe Coffee beans, Water, the
  inventory holds 100 Coffee beans and 200 Water, no order is current, the order counter is 1
  and nothing has been sold: starting an order and adding 3 Espresso succeeds and gives order 1
  a total of 7.50; completing it leaves 97 Coffee beans and 197 Water, daily sales of 7.50, and
  the order in the history with status completed.
\<close>

theorem espresso_scenario:
  assumes "map_of (menu s) ''Espresso'' =
             Some \<lparr>m_name = ''Espresso'', m_price = 5 / 2, m_category = ''Coffee'',
                   m_ingredients = [''Coffee beans'', ''Water'']\<rparr>"
    and "map_of (inventory s) ''Coffee beans'' = Some beans" and "i_quantity beans = 100"
    and "map_of (inventory s) ''Water'' = Some water" and "i_quantity water = 200"
    and "current_order s = None" and "order_counter s = 1" and "daily_sales s = 0"
  shows "\<exists>s1 s2 order1.
           step (AddToOrder ''Espresso'' 3) (start_new_order customer s) = Inr s1 \<and>
           current_order s1 = Some order1 \<and> order_id order1 = 1 \<and>
           status order1 = Pending \<and> total order1 = 15 / 2 \<and>
           step CompleteOrder s1 = Inr s2 \<and>
           map_of (inventory s2) ''Coffee beans'' = Some (beans\<lparr>i_quantity := 97\<rparr>) \<and>
           map_of (inventory s2) ''Water'' = Some (water\<lparr>i_quantity := 197\<rparr>) \<and>
           daily_sales s2 = 15 / 2 \<and>
           orders s2 = orders s @ [order1\<lparr>status := Completed\<rparr>] \<and>
           current_order s2 = None"
  using assms
  by (simp add: start_new_order_def add_to_order_def add_line_def add_item_def Order_init_def
      complete_click_def complete_order_def map_of_dict_set)

theorem espresso_scenario_witness:
  "\<exists>s1 s2 order1.
     step (AddToOrder ''Espresso'' 3) (start_new_order ''Walk-in'' init_session_state) = Inr s1 \<and>
     current_order s1 = Some order1 \<and> order_id order1 = 1 \<and>
     status order1 = Pending \<and> total order1 = 15 / 2 \<and>
     step CompleteOrder s1 = Inr s2 \<and>
     map_of (inventory s2) ''Coffee beans'' =
       Some \<lparr>i_name = ''Coffee beans'', i_quantity = 97, i_unit = ''kg'', i_min_stock = 20\<rparr> \<and>
     map_of (inventory s2) ''Water'' =
       Some \<lparr>i_name = ''Water'', i_quantity = 197, i_unit = ''liters'', i_min_stock = 50\<rparr> \<and>
     daily_sales s2 = 15 / 2 \<and>
     orders s2 = [order1\<lparr>status := Completed\<rparr>] \<and>
     current_order s2 = None"
  using espresso_scenario [OF init_menu_Espresso init_inventory_Coffee_beans _
      init_inventory_Water _ init_fresh(1) init_fresh(2) init_fresh(3), of "''Walk-in''"]
  by (simp add: init_fresh)

subsection \<open>Frame properties of the forms\<close>

lemma display_inventory_submit_frame [simp]:
  "orders (display_inventory_submit n q u m s) = orders s"
  "current_order (display_inventory_submit n q u m s) = current_order s"
  "daily_sales (display_inventory_submit n q u m s) = daily_sales s"
  "menu (display_inventory_submit n q u m s) = menu s"
  by (simp_all add: display_inventory_submit_def split: option.splits)

lemma add_menu_item_page_frame:
  assumes "add_menu_item_page n p c i s = Inr s'"
  shows "orders s' = orders s \<and> current_order s' = current_order s \<and>
         daily_sales s' = daily_sales s \<and> inventory s' = inventory s"
  using assms by (auto simp: add_menu_item_page_def split: if_splits)

subsection \<open>Reachable sessions\<close>

lemma reachable_run: "reachable s \<Longrightarrow> run evs s = Inr s' \<Longrightarrow> reachable s'"
proof (induction evs arbitrary: s)
  case Nil
  then show ?case by simp
next
  case (Cons e es)
  show ?case
  proof (cases "step e s")
    case (Inl err)
    with Cons show ?thesis by (cases err) auto
  next
    case (Inr s1)
    with Cons show ?thesis using reachable_step by auto
  qed
qed

lemma run_espresso:
  "run [StartNewOrder ''Walk-in'', AddToOrder ''Espresso'' 3, CompleteOrder] init_session_state
     = Inr espresso_session"
  by (simp add: espresso_session_def init_session_state_def setup_default_menu_def
      default_items_def setup_default_inventory_def default_inventory_def
      start_new_order_def add_to_order_def add_line_def add_item_def Order_init_def
      complete_click_def complete_order_def)

lemma reachable_espresso_session: "reachable espresso_session"
  using reachable_run [OF reachable_init run_espresso] .

lemma espresso_session_orders:
  "orders espresso_session =
     [\<lparr>order_id = 1, customer_name = ''Walk-in'',
       items = [\<lparr>l_name = ''Espresso'', l_price = 5 / 2, l_quantity = 3,
                 l_category = ''Coffee'', l_subtotal = 15 / 2\<rparr>],
       total = 15 / 2, status = Completed\<rparr>]"
  by (simp add: espresso_session_def init_session_state_def setup_default_menu_def
      default_items_def setup_default_inventory_def default_inventory_def
      start_new_order_def add_to_order_def add_line_def add_item_def Order_init_def
      complete_click_def complete_order_def)

lemma init_menu_Green_Tea:
  "map_of (menu init_session_state) ''Green Tea'' =
     Some \<lparr>m_name = ''Green Tea'', m_price = 2, m_category = ''Tea'',
           m_ingredients = [''Tea leaves'', ''Water'']\<rparr>"
  by (simp add: init_session_state_def setup_default_menu_def default_items_def)

lemma init_inventory_Tea_leaves:
  "map_of (inventory init_session_state) ''Tea leaves'' =
     Some \<lparr>i_name = ''Tea leaves'', i_quantity = 5, i_unit = ''kg'', i_min_stock = 1\<rparr>"
  by (simp add: init_session_state_def setup_default_inventory_def default_inventory_def)

subsection \<open>Totals and subtotals\<close>









subsection \<open>Rejection of a line for lack of stock\<close>

lemma check_availability_first:
  assumes "\<forall>h \<in> set pre. \<not> deficient stock qty h" and "deficient stock qty g"
  shows "check_availability stock qty (pre @ g # post) = Some g"
  using assms
  by (induction pre) (auto simp: deficient_def split: option.splits)

lemma check_availability_none:
  "(\<forall>h \<in> set gs. \<not> deficient stock qty h) \<Longrightarrow> check_availability stock qty gs = None"
  by (induction gs) (auto simp: deficient_def split: option.splits)

text \<open>
  Claim C3, as the code has it. The availability check looks only at ingredients that are in
  the inventory; one that is absent is skipped, not counted as stock 0. If an ingredient of
  the recipe is in the inventory with less than the requested quantity, the first such
  ingredient in recipe order is reported ("Not enough ..."), no line is added, and the session
  (order, inventory and all the rest) stays as it was.
\<close>

theorem add_line_insufficient_stock:
  assumes "current_order s = Some od" and "selected_item \<noteq> []"
    and "map_of (menu s) selected_item = Some menu_item"
    and "m_ingredients menu_item = pre @ g # post"
    and "\<forall>h \<in> set pre. \<not> deficient (inventory s) qty h"
    and "deficient (inventory s) qty g"
  shows "add_line (inventory s) od selected_item menu_item qty = Inl (NotEnough selected_item g) \<and>
         step (AddToOrder selected_item qty) s = Inl (NotEnough selected_item g) \<and>
         run (AddToOrder selected_item qty # evs) s = run evs s"
  using assms check_availability_first [of pre "inventory s" qty g post]
  by (simp add: add_line_def add_to_order_def)

theorem add_line_insufficient_stock_witness:
  "step (AddToOrder ''Green Tea'' 6) (start_new_order ''Walk-in'' init_session_state)
     = Inl (NotEnough ''Green Tea'' ''Tea leaves'') \<and>
   run [AddToOrder ''Green Tea'' 6] (start_new_order ''Walk-in'' init_session_state)
     = Inr (start_new_order ''Walk-in'' init_session_state)"
proof -
  let ?s = "start_new_order ''Walk-in'' init_session_state"
  have m: "map_of (menu ?s) ''Green Tea'' =
     Some \<lparr>m_name = ''Green Tea'', m_price = 2, m_category = ''Tea'',
           m_ingredients = [''Tea leaves'', ''Water'']\<rparr>"
    using init_menu_Green_Tea by (simp add: start_new_order_def init_fresh)
  have c: "current_order ?s = Some (Order_init 1 ''Walk-in'')"
    by (simp add: start_new_order_def init_fresh)
  have d: "deficient (inventory ?s) 6 ''Tea leaves''"
    using init_inventory_Tea_leaves
    by (simp add: deficient_def start_new_order_def init_fresh)
  show ?thesis
    using add_line_insufficient_stock [of ?s "Order_init 1 ''Walk-in''" "''Green Tea''" _
        "[]" "''Tea leaves''" "[''Water'']" 6 "[]", OF c _ m _ _ d]
    by simp
qed

text \<open>
  The claim as stated fails: a recipe with an ingredient that the inventory does not hold
  (stock 0 in the claim's reading) is accepted for quantity 1.
\<close>

theorem absent_ingredient_accepted:
  "\<exists>s1 s2 menu_item od.
     run [AddMenuItem ''Chai'' 3 ''Tea'' (''Tea leaves'' @ [CHR 0x0A] @ ''Cardamom''), StartNewOrder ''Walk-in'']
       init_session_state = Inr s1 \<and>
     map_of (menu s1) ''Chai'' = Some menu_item \<and>
     m_ingredients menu_item = [''Tea leaves'', ''Cardamom''] \<and>
     map_of (inventory s1) ''Cardamom'' = None \<and>
     step (AddToOrder ''Chai'' 1) s1 = Inr s2 \<and>
     current_order s2 = Some od \<and>
     map (\<lambda>l. (l_name l, l_quantity l)) (items od) = [(''Chai'', 1)]"
  by (simp add: init_session_state_def setup_default_menu_def default_items_def
      setup_default_inventory_def default_inventory_def add_menu_item_page_def
      ingredient_list_def strip_def isspace_def
      start_new_order_def add_to_order_def add_line_def add_item_def Order_init_def)

subsection \<open>Two lines that share an ingredient\<close>

text \<open>
  Claim C1 at a concrete session: with 5 Tea leaves in stock, two lines of 3 Green Tea each
  pass the availability check, since the check compares each line with the unchanged stock;
  completing the order leaves -1 Tea leaves.
\<close>

theorem green_tea_oversold:
  "\<exists>s1 s2 s3 od.
     step (AddToOrder ''Green Tea'' 3) (start_new_order ''Walk-in'' init_session_state) = Inr s1 \<and>
     step (AddToOrder ''Green Tea'' 3) s1 = Inr s2 \<and>
     current_order s2 = Some od \<and>
     map (\<lambda>l. (l_name l, l_quantity l)) (items od) = [(''Green Tea'', 3), (''Green Tea'', 3)] \<and>
     map_option i_quantity (map_of (inventory s2) ''Tea leaves'') = Some 5 \<and>
     step CompleteOrder s2 = Inr s3 \<and>
     map_option i_quantity (map_of (inventory s3) ''Tea leaves'') = Some (- 1)"
  by (simp add: init_session_state_def setup_default_menu_def default_items_def
      setup_default_inventory_def default_inventory_def
      start_new_order_def add_to_order_def add_line_def add_item_def Order_init_def
      complete_click_def complete_order_def)

subsection \<open>Orders that are no longer pending\<close>

lemma espresso_session_fields:
  "current_order espresso_session = None" "daily_sales espresso_session = 15 / 2"
  "map_option i_quantity (map_of (inventory espresso_session) ''Coffee beans'') = Some 97"
  by (simp_all add: espresso_session_def init_session_state_def setup_default_menu_def
      default_items_def setup_default_inventory_def default_inventory_def
      start_new_order_def add_to_order_def add_line_def add_item_def Order_init_def
      complete_click_def complete_order_def)

lemma order_states_ok_step:
  assumes "order_states_ok s" and "step e s = Inr s'"
  shows "order_states_ok s'"
proof (cases e)
  case (StartNewOrder c)
  with assms show ?thesis
    by (auto simp: order_states_ok_def start_new_order_def Order_init_def split: option.splits)
next
  case (AddToOrder sel q)
  with assms show ?thesis
    by (auto simp: order_states_ok_def add_to_order_def add_line_def add_item_def
        split: option.splits if_splits sum.splits)
next
  case CompleteOrder
  with assms show ?thesis
    by (auto simp: order_states_ok_def complete_click_def complete_order_def
        split: option.splits if_splits sum.splits)
next
  case CancelOrder
  with assms show ?thesis
    by (auto simp: order_states_ok_def cancel_click_def cancel_order_def
        split: option.splits if_splits)
next
  case (AddMenuItem n p c i)
  with assms show ?thesis
    by (auto simp: order_states_ok_def dest: add_menu_item_page_frame)
next
  case (UpdateInventory n q u m)
  with assms show ?thesis
    by (auto simp: order_states_ok_def)
qed

lemma reachable_order_states_ok: "reachable s \<Longrightarrow> order_states_ok s"
proof (induction rule: reachable.induct)
  case reachable_init
  show ?case by (simp add: order_states_ok_def init_session_state_def)
next
  case (reachable_step s e s')
  then show ?case using order_states_ok_step by blast
qed

lemma history_append_only:
  assumes "step e s = Inr s'"
  shows "take (length (orders s)) (orders s') = orders s"
proof (cases e)
  case (StartNewOrder c)
  with assms show ?thesis by (auto simp: start_new_order_def split: option.splits)
next
  case (AddToOrder sel q)
  with assms show ?thesis
    by (auto simp: add_to_order_def split: option.splits if_splits sum.splits)
next
  case CompleteOrder
  with assms show ?thesis
    by (auto simp: complete_click_def complete_order_def
        split: option.splits if_splits sum.splits)
next
  case CancelOrder
  with assms show ?thesis
    by (auto simp: cancel_click_def cancel_order_def split: option.splits if_splits)
next
  case (AddMenuItem n p c i)
  with assms show ?thesis by (auto dest: add_menu_item_page_frame)
next
  case (UpdateInventory n q u m)
  with assms show ?thesis by auto
qed

lemma no_current_order_no_effect:
  assumes "current_order s = None"
  shows "step (AddToOrder sel q) s = Inr s" and "step CompleteOrder s = Inr s"
    and "step CancelOrder s = Inr s"
  using assms by (simp_all add: add_to_order_def complete_click_def cancel_click_def)

lemma finish_clears_slot:
  assumes "current_order s = Some od" and "items od \<noteq> []"
  shows "step CompleteOrder s = Inr s' \<Longrightarrow>
           current_order s' = None \<and> orders s' = orders s @ [od\<lparr>status := Completed\<rparr>]"
    and "step CancelOrder s = Inr s' \<Longrightarrow>
           current_order s' = None \<and> orders s' = orders s @ [od\<lparr>status := Cancelled\<rparr>]"
  using assms
  by (auto simp: complete_click_def complete_order_def cancel_click_def cancel_order_def
      split: sum.splits)

text \<open>
  Claim C2, as the code has it. No operation checks an order's status and none raises an
  invalid-state error; finished orders are protected by the page instead. In every reachable
  session the order in the slot \<^verbatim>\<open>current_order\<close> (the only order the page hands to the
  operations) is pending and every order of the history is completed or cancelled; every
  action leaves the entries already in the history as they are; completing or cancelling
  empties the slot; and while the slot is empty, Add to Order, Complete Order and Cancel Order
  raise nothing and leave the whole session unchanged.
\<close>

theorem finalized_orders_protected_by_page:
  assumes "reachable s"
  shows "(\<forall>od. current_order s = Some od \<longrightarrow> status od = Pending) \<and>
         (\<forall>od \<in> set (orders s). status od = Completed \<or> status od = Cancelled) \<and>
         (\<forall>e s'. step e s = Inr s' \<longrightarrow> take (length (orders s)) (orders s') = orders s) \<and>
         (\<forall>od s'. current_order s = Some od \<and> items od \<noteq> [] \<and>
                   (step CompleteOrder s = Inr s' \<or> step CancelOrder s = Inr s') \<longrightarrow>
                   current_order s' = None) \<and>
         (current_order s = None \<longrightarrow>
            (\<forall>sel q. step (AddToOrder sel q) s = Inr s) \<and>
            step CompleteOrder s = Inr s \<and> step CancelOrder s = Inr s)"
proof -
  have ok: "order_states_ok s" using assms by (rule reachable_order_states_ok)
  have a: "\<forall>od. current_order s = Some od \<longrightarrow> status od = Pending"
    using ok by (auto simp: order_states_ok_def)
  have b: "\<forall>od \<in> set (orders s). status od = Completed \<or> status od = Cancelled"
  proof
    fix od assume "od \<in> set (orders s)"
    then have "status od \<noteq> Pending" using ok by (auto simp: order_states_ok_def list_all_iff)
    then show "status od = Completed \<or> status od = Cancelled" by (cases "status od") auto
  qed
  have c: "\<forall>e s'. step e s = Inr s' \<longrightarrow> take (length (orders s)) (orders s') = orders s"
    using history_append_only by blast
  have d: "\<forall>od s'. current_order s = Some od \<and> items od \<noteq> [] \<and>
                   (step CompleteOrder s = Inr s' \<or> step CancelOrder s = Inr s') \<longrightarrow>
                   current_order s' = None"
    using finish_clears_slot by blast
  have e: "current_order s = None \<longrightarrow>
            (\<forall>sel q. step (AddToOrder sel q) s = Inr s) \<and>
            step CompleteOrder s = Inr s \<and> step CancelOrder s = Inr s"
    using no_current_order_no_effect by blast
  show ?thesis using a b c d e by blast
qed

theorem finalized_orders_protected_by_page_witness:
  "reachable espresso_session \<and> current_order espresso_session = None \<and>
   map status (orders espresso_session) = [Completed] \<and>
   step (AddToOrder ''Espresso'' 1) espresso_session = Inr espresso_session \<and>
   step CompleteOrder espresso_session = Inr espresso_session \<and>
   step CancelOrder espresso_session = Inr espresso_session"
  using finalized_orders_protected_by_page [OF reachable_espresso_session]
    reachable_espresso_session espresso_session_fields(1) espresso_session_orders
  by simp

text \<open>
  The claim as stated fails: \<^verbatim>\<open>complete_order\<close> applied to the completed order of the
  history raises nothing, takes the ingredients from the inventory a second time, adds the total
  to the daily sales again and appends the order to the history again; \<^verbatim>\<open>add_item\<close> appends
  a line to it.
\<close>

theorem complete_order_twice:
  "\<exists>od s'. orders espresso_session = [od] \<and> status od = Completed \<and>
     map_option i_quantity (map_of (inventory espresso_session) ''Coffee beans'') = Some 97 \<and>
     daily_sales espresso_session = 15 / 2 \<and>
     complete_order od espresso_session = Inr s' \<and>
     map_option i_quantity (map_of (inventory s') ''Coffee beans'') = Some 94 \<and>
     daily_sales s' = 15 \<and>
     orders s' = [od, od] \<and>
     length (items (add_item od \<lparr>m_name = ''Espresso'', m_price = 5 / 2, m_category = ''Coffee'',
       m_ingredients = [''Coffee beans'', ''Water'']\<rparr> 1)) = 2"
  by (simp add: espresso_session_def init_session_state_def setup_default_menu_def
      default_items_def setup_default_inventory_def default_inventory_def
      start_new_order_def add_to_order_def add_line_def add_item_def Order_init_def
      complete_click_def complete_order_def)

subsection \<open>Daily report\<close>

lemma completed_orders_append [simp]:
  "completed_orders (xs @ ys) = completed_orders xs @ completed_orders ys"
  by (simp add: completed_orders_def)

lemma sales_ok_step:
  assumes "sales_ok s" and "step e s = Inr s'"
  shows "sales_ok s'"
proof (cases e)
  case (StartNewOrder c)
  with assms show ?thesis by (auto simp: sales_ok_def start_new_order_def split: option.splits)
next
  case (AddToOrder sel q)
  with assms show ?thesis
    by (auto simp: sales_ok_def add_to_order_def split: option.splits if_splits sum.splits)
next
  case CompleteOrder
  with assms show ?thesis
    by (auto simp: sales_ok_def complete_click_def complete_order_def completed_orders_def
        split: option.splits if_splits sum.splits)
next
  case CancelOrder
  with assms show ?thesis
    by (auto simp: sales_ok_def cancel_click_def cancel_order_def completed_orders_def
        split: option.splits if_splits)
next
  case (AddMenuItem n p c i)
  with assms show ?thesis by (auto simp: sales_ok_def dest: add_menu_item_page_frame)
next
  case (UpdateInventory n q u m)
  with assms show ?thesis by (auto simp: sales_ok_def)
qed

lemma reachable_sales_ok: "reachable s \<Longrightarrow> sales_ok s"
proof (induction rule: reachable.induct)
  case reachable_init
  show ?case by (simp add: sales_ok_def init_session_state_def completed_orders_def)
next
  case (reachable_step s e s')
  then show ?case using sales_ok_step by blast
qed

text \<open>
  Claim C7. The report never fails with a division by zero. It counts the completed orders
  and shows the accumulator as total sales; without a completed order the count and the average
  are 0, and with one the average is total sales divided by the count. In every reachable
  session the accumulator equals the sum of the totals of the completed orders of the history,
  so total sales is 0 when there is none.
\<close>

theorem daily_report_metrics:
  "\<exists>m. daily_report s = Inr m \<and>
        total_orders m = int (length (completed_orders (orders s))) \<and>
        total_sales m = daily_sales s \<and>
        (completed_orders (orders s) = [] \<longrightarrow> total_orders m = 0 \<and> average_order m = 0) \<and>
        (completed_orders (orders s) \<noteq> [] \<longrightarrow>
           average_order m = total_sales m / of_int (total_orders m)) \<and>
        (reachable s \<longrightarrow>
           total_sales m = sum_list (map total (completed_orders (orders s))) \<and>
           (completed_orders (orders s) = [] \<longrightarrow> total_sales m = 0))"
  using reachable_sales_ok [of s]
  by (auto simp: daily_report_def truediv_def Let_def sales_ok_def)

theorem daily_report_metrics_witness:
  "daily_report init_session_state =
     Inr \<lparr>total_orders = 0, total_sales = 0, average_order = 0\<rparr> \<and>
   reachable espresso_session \<and>
   daily_report espresso_session =
     Inr \<lparr>total_orders = 1, total_sales = 15 / 2, average_order = 15 / 2\<rparr>"
proof -
  obtain m where m: "daily_report init_session_state = Inr m"
    "total_orders m = int (length (completed_orders (orders init_session_state)))"
    "total_sales m = daily_sales init_session_state"
    "completed_orders (orders init_session_state) = [] \<longrightarrow>
       total_orders m = 0 \<and> average_order m = 0"
    using daily_report_metrics [of init_session_state] by blast
  have "m = \<lparr>total_orders = 0, total_sales = 0, average_order = 0\<rparr>"
    using m by (simp add: init_fresh completed_orders_def)
  then have 1: "daily_report init_session_state =
     Inr \<lparr>total_orders = 0, total_sales = 0, average_order = 0\<rparr>"
    using m(1) by simp
  obtain m' where m': "daily_report espresso_session = Inr m'"
    "total_orders m' = int (length (completed_orders (orders espresso_session)))"
    "completed_orders (orders espresso_session) \<noteq> [] \<longrightarrow>
       average_order m' = total_sales m' / of_int (total_orders m')"
    "reachable espresso_session \<longrightarrow>
       total_sales m' = sum_list (map total (completed_orders (orders espresso_session)))"
    using daily_report_metrics [of espresso_session] by blast
  have "m' = \<lparr>total_orders = 1, total_sales = 15 / 2, average_order = 15 / 2\<rparr>"
    using m'(2-4) reachable_espresso_session
    by (simp add: completed_orders_def espresso_session_orders)
  then have 2: "daily_report espresso_session =
     Inr \<lparr>total_orders = 1, total_sales = 15 / 2, average_order = 15 / 2\<rparr>"
    using m'(1) by simp
  show ?thesis using 1 2 reachable_espresso_session by simp
qed

subsection \<open>The menu form\<close>

lemma dict_set_new: "k \<notin> set (keys d) \<Longrightarrow> dict_set k v d = d @ [(k, v)]"
  by (induction d) (auto simp: keys_def)

lemma dict_set_replace:
  "k \<notin> set (keys pre) \<Longrightarrow> dict_set k v (pre @ (k, old) # post) = pre @ (k, v) # post"
  by (induction pre) (auto simp: keys_def)

lemma dict_split_first:
  assumes "k \<in> set (keys d)"
  shows "\<exists>pre old post. d = pre @ (k, old) # post \<and> k \<notin> set (keys pre)"
  using assms
proof (induction d)
  case Nil
  then show ?case by (simp add: keys_def)
next
  case (Cons p d)
  show ?case
  proof (cases "fst p = k")
    case True
    then have "p # d = [] @ (k, snd p) # d \<and> k \<notin> set (keys [])"
      by (auto simp: keys_def)
    then show ?thesis by blast
  next
    case False
    with Cons.prems have "k \<in> set (keys d)" by (auto simp: keys_def)
    then obtain pre old post where "d = pre @ (k, old) # post" "k \<notin> set (keys pre)"
      using Cons.IH by blast
    with False have "p # d = (p # pre) @ (k, old) # post \<and> k \<notin> set (keys (p # pre))"
      by (auto simp: keys_def)
    then show ?thesis by blast
  qed
qed

lemma upsert_accepted:
  assumes good: "name \<noteq> [] \<and> 0 < price \<and> category \<noteq> []"
  shows "\<exists>item menu'.
         item = \<lparr>m_name = name, m_price = price, m_category = category,
                 m_ingredients = ingredient_list ingredients\<rparr> \<and>
         add_menu_item_page name price category ingredients s = Inr (s\<lparr>menu := menu'\<rparr>) \<and>
         map_of menu' name = Some item \<and>
         (\<forall>k. k \<noteq> name \<longrightarrow> map_of menu' k = map_of (menu s) k) \<and>
         (name \<notin> set (keys (menu s)) \<longrightarrow> menu' = menu s @ [(name, item)]) \<and>
         (name \<in> set (keys (menu s)) \<longrightarrow>
            keys menu' = keys (menu s) \<and>
            (\<exists>pre old post. menu s = pre @ (name, old) # post \<and> name \<notin> set (keys pre) \<and>
                             menu' = pre @ (name, item) # post))"
proof -
  define item where "item = \<lparr>m_name = name, m_price = price, m_category = category,
                 m_ingredients = ingredient_list ingredients\<rparr>"
  define menu' where "menu' = dict_set name item (menu s)"
  have 1: "add_menu_item_page name price category ingredients s = Inr (s\<lparr>menu := menu'\<rparr>)"
    using good by (simp add: add_menu_item_page_def item_def menu'_def)
  have 2: "map_of menu' name = Some item"
    by (simp add: menu'_def map_of_dict_set)
  have 3: "\<forall>k. k \<noteq> name \<longrightarrow> map_of menu' k = map_of (menu s) k"
    by (simp add: menu'_def map_of_dict_set)
  have 4: "name \<notin> set (keys (menu s)) \<longrightarrow> menu' = menu s @ [(name, item)]"
    by (simp add: menu'_def dict_set_new)
  have 5: "name \<in> set (keys (menu s)) \<longrightarrow>
            keys menu' = keys (menu s) \<and>
            (\<exists>pre old post. menu s = pre @ (name, old) # post \<and> name \<notin> set (keys pre) \<and>
                             menu' = pre @ (name, item) # post)"
  proof
    assume "name \<in> set (keys (menu s))"
    from dict_split_first [OF this]
    obtain pre old post where d1: "menu s = pre @ (name, old) # post"
      and d2: "name \<notin> set (keys pre)"
      by blast
    have m: "menu' = pre @ (name, item) # post"
      unfolding menu'_def d1 using d2 by (rule dict_set_replace)
    have k: "keys menu' = keys (menu s)"
      unfolding m d1 by (simp add: keys_def)
    have "\<exists>pre old post. menu s = pre @ (name, old) # post \<and> name \<notin> set (keys pre) \<and>
                             menu' = pre @ (name, item) # post"
      apply (rule exI [of _ pre])
      apply (rule exI [of _ old])
      apply (rule exI [of _ post])
      apply (rule conjI [OF d1 conjI [OF d2 m]])
      done
    with k show "keys menu' = keys (menu s) \<and>
            (\<exists>pre old post. menu s = pre @ (name, old) # post \<and> name \<notin> set (keys pre) \<and>
                             menu' = pre @ (name, item) # post)"
      by (rule conjI)
  qed
  show ?thesis
    apply (rule exI [of _ item])
    apply (rule exI [of _ menu'])
    apply (rule conjI [OF item_def conjI [OF 1 conjI [OF 2 conjI [OF 3 conjI [OF 4 5]]]]])
    done
qed

lemma upsert_rejected:
  assumes "name = [] \<or> price \<le> 0 \<or> category = []"
  shows "\<exists>v. add_menu_item_page name price category ingredients s = Inl (ValidationError v)"
  using assms by (auto simp: add_menu_item_page_def)

lemma upsert_rejected_unchanged:
  assumes "name = [] \<or> price \<le> 0 \<or> category = []"
  shows "run (AddMenuItem name price category ingredients # evs) s = run evs s"
  using assms by (auto simp: add_menu_item_page_def)

lemma init_menu_keys:
  "keys (menu init_session_state) =
     [''Espresso'', ''Americano'', ''Cappuccino'', ''Latte'', ''Mocha'', ''Croissant'',
      ''Muffin'', ''Green Tea'']"
  by (simp add: keys_def init_session_state_def setup_default_menu_def default_items_def)

lemma ingredient_list_Water: "ingredient_list ''Water'' = [''Water'']"
  by (simp add: ingredient_list_def strip_def isspace_def)

text \<open>
  Claim C9. The menu form is rejected with a validation message when the name is empty, the
  price is at most 0 or the category is empty, and the session (the menu with it) stays as it
  was. Otherwise the entry built from the form is stored under the name and no other entry
  changes: a new name is appended at the end of the menu, and for a name that is already there
  the entry is replaced where it stands, so the order of the keys is the same as before.
\<close>

theorem catalog_upsert:
  "(name = [] \<or> price \<le> 0 \<or> category = [] \<longrightarrow>
      (\<exists>v. add_menu_item_page name price category ingredients s = Inl (ValidationError v)) \<and>
      run (AddMenuItem name price category ingredients # evs) s = run evs s) \<and>
   (name \<noteq> [] \<and> 0 < price \<and> category \<noteq> [] \<longrightarrow>
      (\<exists>item menu'.
         item = \<lparr>m_name = name, m_price = price, m_category = category,
                 m_ingredients = ingredient_list ingredients\<rparr> \<and>
         add_menu_item_page name price category ingredients s = Inr (s\<lparr>menu := menu'\<rparr>) \<and>
         map_of menu' name = Some item \<and>
         (\<forall>k. k \<noteq> name \<longrightarrow> map_of menu' k = map_of (menu s) k) \<and>
         (name \<notin> set (keys (menu s)) \<longrightarrow> menu' = menu s @ [(name, item)]) \<and>
         (name \<in> set (keys (menu s)) \<longrightarrow>
            keys menu' = keys (menu s) \<and>
            (\<exists>pre old post. menu s = pre @ (name, old) # post \<and> name \<notin> set (keys pre) \<and>
                             menu' = pre @ (name, item) # post))))"
  apply (rule conjI)
   apply (rule impI)
   apply (rule conjI)
    apply (erule upsert_rejected)
   apply (erule upsert_rejected_unchanged)
  apply (rule impI)
  apply (erule upsert_accepted)
  done

theorem catalog_upsert_witness:
  "run [AddMenuItem ''Chai'' 0 ''Tea'' ''Water''] init_session_state = Inr init_session_state \<and>
   (\<exists>s'. add_menu_item_page ''Americano'' 4 ''Coffee'' ''Water'' init_session_state = Inr s' \<and>
      keys (menu s') =
        [''Espresso'', ''Americano'', ''Cappuccino'', ''Latte'', ''Mocha'', ''Croissant'',
         ''Muffin'', ''Green Tea''] \<and>
      map_of (menu s') ''Americano'' =
        Some \<lparr>m_name = ''Americano'', m_price = 4, m_category = ''Coffee'',
              m_ingredients = [''Water'']\<rparr>) \<and>
   (\<exists>s'. add_menu_item_page ''Chai'' 3 ''Tea'' ''Water'' init_session_state = Inr s' \<and>
      keys (menu s') =
        [''Espresso'', ''Americano'', ''Cappuccino'', ''Latte'', ''Mocha'', ''Croissant'',
         ''Muffin'', ''Green Tea'', ''Chai''])"
proof (intro conjI)
  have bad: "''Chai'' = [] \<or> (0::rat) \<le> 0 \<or> ''Tea'' = []" by simp
  from catalog_upsert [of "''Chai''" 0 "''Tea''" "''Water''" init_session_state "[]",
      THEN conjunct1, rule_format, OF bad]
  show "run [AddMenuItem ''Chai'' 0 ''Tea'' ''Water''] init_session_state
          = Inr init_session_state"
    by simp
next
  have good: "''Americano'' \<noteq> [] \<and> (0::rat) < 4 \<and> ''Coffee'' \<noteq> []" by simp
  have mem: "''Americano'' \<in> set (keys (menu init_session_state))"
    by (simp add: init_menu_keys)
  from catalog_upsert [of "''Americano''" 4 "''Coffee''" "''Water''" init_session_state "[]",
      THEN conjunct2, rule_format, OF good]
  show "\<exists>s'. add_menu_item_page ''Americano'' 4 ''Coffee'' ''Water'' init_session_state = Inr s' \<and>
      keys (menu s') =
        [''Espresso'', ''Americano'', ''Cappuccino'', ''Latte'', ''Mocha'', ''Croissant'',
         ''Muffin'', ''Green Tea''] \<and>
      map_of (menu s') ''Americano'' =
        Some \<lparr>m_name = ''Americano'', m_price = 4, m_category = ''Coffee'',
              m_ingredients = [''Water'']\<rparr>"
  proof (elim exE conjE)
    fix item menu'
    assume i: "item = \<lparr>m_name = ''Americano'', m_price = 4, m_category = ''Coffee'',
                 m_ingredients = ingredient_list ''Water''\<rparr>"
      and a: "add_menu_item_page ''Americano'' 4 ''Coffee'' ''Water'' init_session_state
                = Inr (init_session_state\<lparr>menu := menu'\<rparr>)"
      and l: "map_of menu' ''Americano'' = Some item"
      and r: "''Americano'' \<in> set (keys (menu init_session_state)) \<longrightarrow>
            keys menu' = keys (menu init_session_state) \<and>
            (\<exists>pre old post. menu init_session_state = pre @ (''Americano'', old) # post \<and>
               ''Americano'' \<notin> set (keys pre) \<and> menu' = pre @ (''Americano'', item) # post)"
    from r mem have k: "keys menu' = keys (menu init_session_state)" by (rule mp [THEN conjunct1])
    show ?thesis
      apply (rule exI [of _ "init_session_state\<lparr>menu := menu'\<rparr>"])
      using a l k by (simp add: i init_menu_keys ingredient_list_Water)
  qed
next
  have good: "''Chai'' \<noteq> [] \<and> (0::rat) < 3 \<and> ''Tea'' \<noteq> []" by simp
  have nmem: "''Chai'' \<notin> set (keys (menu init_session_state))"
    by (simp add: init_menu_keys)
  from catalog_upsert [of "''Chai''" 3 "''Tea''" "''Water''" init_session_state "[]",
      THEN conjunct2, rule_format, OF good]
  show "\<exists>s'. add_menu_item_page ''Chai'' 3 ''Tea'' ''Water'' init_session_state = Inr s' \<and>
      keys (menu s') =
        [''Espresso'', ''Americano'', ''Cappuccino'', ''Latte'', ''Mocha'', ''Croissant'',
         ''Muffin'', ''Green Tea'', ''Chai'']"
  proof (elim exE conjE)
    fix item menu'
    assume a: "add_menu_item_page ''Chai'' 3 ''Tea'' ''Water'' init_session_state
                = Inr (init_session_state\<lparr>menu := menu'\<rparr>)"
      and r: "''Chai'' \<notin> set (keys (menu init_session_state)) \<longrightarrow>
                menu' = menu init_session_state @ [(''Chai'', item)]"
    from r nmem have m: "menu' = menu init_session_state @ [(''Chai'', item)]" by (rule mp)
    have "keys menu' = keys (menu init_session_state) @ [''Chai'']"
      unfolding m by (simp add: keys_def)
    then show ?thesis
      apply (intro exI [of _ "init_session_state\<lparr>menu := menu'\<rparr>"])
      using a by (simp add: init_menu_keys)
  qed
qed

subsection \<open>The recipe that completion uses\<close>

lemma list_all_dict_set:
  "list_all P d \<Longrightarrow> P (k, v) \<Longrightarrow> list_all P (dict_set k v d)"
  by (induction d) auto

lemma menu_names_ok_step:
  assumes "menu_names_ok s" and "step e s = Inr s'"
  shows "menu_names_ok s'"
proof (cases e)
  case (StartNewOrder c)
  with assms show ?thesis by (auto simp: menu_names_ok_def start_new_order_def split: option.splits)
next
  case (AddToOrder sel q)
  with assms show ?thesis
    by (auto simp: menu_names_ok_def add_to_order_def split: option.splits if_splits sum.splits)
next
  case CompleteOrder
  with assms show ?thesis
    by (auto simp: menu_names_ok_def complete_click_def complete_order_def
        split: option.splits if_splits sum.splits)
next
  case CancelOrder
  with assms show ?thesis
    by (auto simp: menu_names_ok_def cancel_click_def cancel_order_def
        split: option.splits if_splits)
next
  case (AddMenuItem n p c i)
  with assms show ?thesis
    by (auto simp: menu_names_ok_def add_menu_item_page_def list_all_dict_set split: if_splits)
next
  case (UpdateInventory n q u m)
  with assms show ?thesis by (auto simp: menu_names_ok_def)
qed

lemma reachable_menu_names_ok: "reachable s \<Longrightarrow> menu_names_ok s"
proof (induction rule: reachable.induct)
  case reachable_init
  show ?case
    by (simp add: menu_names_ok_def init_session_state_def setup_default_menu_def
        default_items_def)
next
  case (reachable_step s e s')
  then show ?case using menu_names_ok_step by blast
qed

lemma menu_lookup_name:
  assumes "menu_names_ok s" and "map_of (menu s) k = Some menu_item"
  shows "m_name menu_item = k"
proof -
  from assms(2) have "(k, menu_item) \<in> set (menu s)" by (rule map_of_SomeD)
  with assms(1) show ?thesis by (auto simp: menu_names_ok_def list_all_iff)
qed

lemma deduct_items_snoc:
  "deduct_items mn (ls @ [l]) stock =
     (case deduct_items mn ls stock of
        Inl e \<Rightarrow> Inl e
      | Inr stock' \<Rightarrow>
          (case map_of mn (l_name l) of
             None \<Rightarrow> Inl (KeyError (l_name l))
           | Some menu_item \<Rightarrow>
               Inr (deduct_ingredients (l_quantity l) (m_ingredients menu_item) stock')))"
  by (induction ls arbitrary: stock) (auto split: option.splits)

text \<open>
  Claim C10. In a reachable session, let a line for a menu item be added to the current
  order, let the menu form then replace that item (new price, category and ingredients), and
  let the order be completed. The completed order in the history carries the line with the
  price, category and subtotal of the entry as it was when the line was added, while the
  inventory is reduced by the line's quantity for the ingredients of the entry as it is at
  completion: the edited recipe, applied after the deduction for the earlier lines.
\<close>

theorem completion_uses_current_recipe:
  assumes reach: "reachable s"
    and cur: "current_order s = Some od"
    and sel: "selected_item \<noteq> []"
    and mi: "map_of (menu s) selected_item = Some menu_item"
    and add: "step (AddToOrder selected_item qty) s = Inr s1"
    and edit: "step (AddMenuItem selected_item price' category' ingredients') s1 = Inr s2"
    and fin: "step CompleteOrder s2 = Inr s3"
  shows "\<exists>line stock0.
           line = \<lparr>l_name = selected_item, l_price = m_price menu_item, l_quantity = qty,
                   l_category = m_category menu_item,
                   l_subtotal = m_price menu_item * of_int qty\<rparr> \<and>
           orders s3 = orders s @
             [od\<lparr>items := items od @ [line],
                 total := total od + m_price menu_item * of_int qty,
                 status := Completed\<rparr>] \<and>
           map_of (menu s2) selected_item =
             Some \<lparr>m_name = selected_item, m_price = price', m_category = category',
                   m_ingredients = ingredient_list ingredients'\<rparr> \<and>
           deduct_items (menu s2) (items od) (inventory s) = Inr stock0 \<and>
           inventory s3 = deduct_ingredients qty (ingredient_list ingredients') stock0"
proof -
  define line where "line = \<lparr>l_name = selected_item, l_price = m_price menu_item,
     l_quantity = qty, l_category = m_category menu_item,
     l_subtotal = m_price menu_item * of_int qty\<rparr>"
  define new_item where "new_item = \<lparr>m_name = selected_item, m_price = price',
     m_category = category', m_ingredients = ingredient_list ingredients'\<rparr>"
  have nm: "m_name menu_item = selected_item"
    using reachable_menu_names_ok [OF reach] mi by (rule menu_lookup_name)
  have od1: "add_item od menu_item qty =
      od\<lparr>items := items od @ [line], total := total od + m_price menu_item * of_int qty\<rparr>"
    by (simp add: add_item_def line_def nm)
  have s1: "s1 = s\<lparr>current_order := Some (add_item od menu_item qty)\<rparr>"
    using add cur sel mi
    by (auto simp: add_to_order_def add_line_def split: option.splits)
  have s2: "s2 = s1\<lparr>menu := dict_set selected_item new_item (menu s1)\<rparr>"
    using edit by (auto simp: add_menu_item_page_def new_item_def split: if_splits)
  have m2: "map_of (menu s2) selected_item = Some new_item"
    by (simp add: s2 map_of_dict_set)
  have c2: "current_order s2 = Some (add_item od menu_item qty)"
    by (simp add: s2 s1)
  have i2: "inventory s2 = inventory s" and o2: "orders s2 = orders s"
    by (simp_all add: s2 s1)
  have ne: "items (add_item od menu_item qty) \<noteq> []"
    by (simp add: od1)
  from fin c2 ne obtain stock3 where
    d3: "deduct_items (menu s2) (items (add_item od menu_item qty)) (inventory s2) = Inr stock3"
    and s3: "s3 = s2\<lparr>inventory := stock3,
                      orders := orders s2 @ [(add_item od menu_item qty)\<lparr>status := Completed\<rparr>],
                      daily_sales := daily_sales s2 + total (add_item od menu_item qty),
                      current_order := None\<rparr>"
    by (auto simp: complete_click_def complete_order_def split: sum.splits)
  from d3 have d3': "deduct_items (menu s2) (items od @ [line]) (inventory s) = Inr stock3"
    by (simp add: od1 i2)
  then obtain stock0 where
    d0: "deduct_items (menu s2) (items od) (inventory s) = Inr stock0"
    and st3: "stock3 = deduct_ingredients qty (ingredient_list ingredients') stock0"
    using m2
    by (auto simp: deduct_items_snoc line_def new_item_def split: sum.splits)
  have o3: "orders s3 = orders s @
             [od\<lparr>items := items od @ [line],
                 total := total od + m_price menu_item * of_int qty,
                 status := Completed\<rparr>]"
    by (simp add: s3 o2 od1)
  have v3: "inventory s3 = deduct_ingredients qty (ingredient_list ingredients') stock0"
    by (simp add: s3 st3)
  show ?thesis
    apply (rule exI [of _ line])
    apply (rule exI [of _ stock0])
    apply (rule conjI [OF line_def conjI [OF o3 conjI [OF m2 [unfolded new_item_def]
            conjI [OF d0 v3]]]])
    done
qed

lemmas session_eval_defs =
  init_session_state_def setup_default_menu_def default_items_def
  setup_default_inventory_def default_inventory_def
  start_new_order_def add_to_order_def add_line_def add_item_def Order_init_def
  complete_click_def complete_order_def add_menu_item_page_def
  ingredient_list_def strip_def isspace_def cancel_click_def cancel_order_def

lemma recipe_edit_steps:
  "current_order recipe_edit_s0 = Some (Order_init 1 ''Walk-in'')"
  "map_of (menu recipe_edit_s0) ''Espresso'' =
     Some \<lparr>m_name = ''Espresso'', m_price = 5 / 2, m_category = ''Coffee'',
           m_ingredients = [''Coffee beans'', ''Water'']\<rparr>"
  "step (AddToOrder ''Espresso'' 3) recipe_edit_s0 = Inr recipe_edit_s1"
  "step (AddMenuItem ''Espresso'' 9 ''Special'' ''Milk'') recipe_edit_s1 = Inr recipe_edit_s2"
  "step CompleteOrder recipe_edit_s2 = Inr recipe_edit_s3"
  by (simp_all add: recipe_edit_s0_def recipe_edit_s1_def recipe_edit_s2_def
      recipe_edit_s3_def session_eval_defs)

lemma reachable_recipe_edit_s0: "reachable recipe_edit_s0"
  unfolding recipe_edit_s0_def
  using reachable_step [OF reachable_init, of "StartNewOrder ''Walk-in''"] by simp

lemma recipe_edit_stock:
  "inventory recipe_edit_s0 = inventory init_session_state"
  "orders recipe_edit_s0 = []"
  by (simp_all add: recipe_edit_s0_def start_new_order_def init_fresh)

lemma init_inventory_Milk:
  "map_of (inventory init_session_state) ''Milk'' =
     Some \<lparr>i_name = ''Milk'', i_quantity = 50, i_unit = ''liters'', i_min_stock = 10\<rparr>"
  by (simp add: init_session_state_def setup_default_inventory_def default_inventory_def)

theorem completion_uses_current_recipe_witness:
  "reachable recipe_edit_s0 \<and>
   step (AddToOrder ''Espresso'' 3) recipe_edit_s0 = Inr recipe_edit_s1 \<and>
   step (AddMenuItem ''Espresso'' 9 ''Special'' ''Milk'') recipe_edit_s1 = Inr recipe_edit_s2 \<and>
   step CompleteOrder recipe_edit_s2 = Inr recipe_edit_s3 \<and>
   orders recipe_edit_s3 =
     [\<lparr>order_id = 1, customer_name = ''Walk-in'',
       items = [\<lparr>l_name = ''Espresso'', l_price = 5 / 2, l_quantity = 3,
                 l_category = ''Coffee'', l_subtotal = 15 / 2\<rparr>],
       total = 15 / 2, status = Completed\<rparr>] \<and>
   map_option i_quantity (map_of (inventory recipe_edit_s3) ''Milk'') = Some 47 \<and>
   map_option i_quantity (map_of (inventory recipe_edit_s3) ''Coffee beans'') = Some 100 \<and>
   map_option i_quantity (map_of (inventory recipe_edit_s3) ''Water'') = Some 200"
proof -
  from completion_uses_current_recipe [OF reachable_recipe_edit_s0 recipe_edit_steps(1) _
      recipe_edit_steps(2) recipe_edit_steps(3) recipe_edit_steps(4) recipe_edit_steps(5)]
  obtain line stock0 where
    l: "line = \<lparr>l_name = ''Espresso'', l_price = 5 / 2, l_quantity = 3,
                 l_category = ''Coffee'', l_subtotal = 5 / 2 * of_int 3\<rparr>"
    and o: "orders recipe_edit_s3 = orders recipe_edit_s0 @
             [(Order_init 1 ''Walk-in'')\<lparr>items := items (Order_init 1 ''Walk-in'') @ [line],
                 total := total (Order_init 1 ''Walk-in'') + 5 / 2 * of_int 3,
                 status := Completed\<rparr>]"
    and d: "deduct_items (menu recipe_edit_s2) (items (Order_init 1 ''Walk-in''))
              (inventory recipe_edit_s0) = Inr stock0"
    and v: "inventory recipe_edit_s3 =
              deduct_ingredients 3 (ingredient_list ''Milk'') stock0"
    by auto
  have st: "stock0 = inventory init_session_state"
    using d by (simp add: Order_init_def recipe_edit_stock)
  have il: "ingredient_list ''Milk'' = [''Milk'']"
    by (simp add: ingredient_list_def strip_def isspace_def)
  have o': "orders recipe_edit_s3 =
     [\<lparr>order_id = 1, customer_name = ''Walk-in'',
       items = [\<lparr>l_name = ''Espresso'', l_price = 5 / 2, l_quantity = 3,
                 l_category = ''Coffee'', l_subtotal = 15 / 2\<rparr>],
       total = 15 / 2, status = Completed\<rparr>]"
    by (simp add: o l recipe_edit_stock Order_init_def)
  have q: "map_option i_quantity (map_of (inventory recipe_edit_s3) ''Milk'') = Some 47"
    "map_option i_quantity (map_of (inventory recipe_edit_s3) ''Coffee beans'') = Some 100"
    "map_option i_quantity (map_of (inventory recipe_edit_s3) ''Water'') = Some 200"
    by (simp_all add: v st il init_inventory_Milk init_inventory_Coffee_beans
        init_inventory_Water map_of_dict_set)
  show ?thesis
    using reachable_recipe_edit_s0 recipe_edit_steps(3-5) o' q by simp
qed

subsection \<open>What changes the stock\<close>

lemma stock_of_deduct_ingredients:
  "stock_of (deduct_ingredients qty gs stock) g =
     map_option (\<lambda>x. x - qty * int (count_list gs g)) (stock_of stock g)"
proof (induction gs arbitrary: stock)
  case Nil
  show ?case by (simp add: option.map_ident)
next
  case (Cons h gs)
  show ?case
  proof (cases "map_of stock h")
    case None
    then show ?thesis
      using Cons [of stock]
      by (cases "h = g") (auto simp: stock_of_def)
  next
    case (Some it)
    show ?thesis
    proof (cases "h = g")
      case True
      with Some show ?thesis
        using Cons [of "dict_set h (it\<lparr>i_quantity := i_quantity it - qty\<rparr>) stock"]
        by (simp add: stock_of_def map_of_dict_set algebra_simps)
    next
      case False
      with Some show ?thesis
        using Cons [of "dict_set h (it\<lparr>i_quantity := i_quantity it - qty\<rparr>) stock"]
        by (simp add: stock_of_def map_of_dict_set)
    qed
  qed
qed

lemma stock_of_deduct_items:
  "deduct_items mn ls stock = Inr stock' \<Longrightarrow>
   stock_of stock' g =
     map_option (\<lambda>x. x - sum_list (map (line_uses mn g) ls)) (stock_of stock g)"
proof (induction ls arbitrary: stock)
  case Nil
  then show ?case by (simp add: option.map_ident)
next
  case (Cons l ls)
  from Cons.prems obtain menu_item where
    m: "map_of mn (l_name l) = Some menu_item"
    and r: "deduct_items mn ls
              (deduct_ingredients (l_quantity l) (m_ingredients menu_item) stock) = Inr stock'"
    by (auto split: option.splits)
  have "stock_of stock' g =
      map_option (\<lambda>x. x - sum_list (map (line_uses mn g) ls))
        (stock_of (deduct_ingredients (l_quantity l) (m_ingredients menu_item) stock) g)"
    using Cons.IH [OF r] .
  also have "\<dots> = map_option (\<lambda>x. x - sum_list (map (line_uses mn g) (l # ls)))
        (stock_of stock g)"
    by (simp add: stock_of_deduct_ingredients option.map_comp comp_def line_uses_def m
        algebra_simps)
  finally show ?case .
qed

lemma consumed_append:
  "consumed mn g (xs @ ys) = consumed mn g xs + consumed mn g ys"
  by (simp add: consumed_def)

lemma order_step_effect:
  assumes "is_order_event e" and "step e s = Inr s1"
  shows "menu s1 = menu s \<and>
         (\<exists>new. orders s1 = orders s @ new \<and>
            (\<forall>g. stock_of (inventory s1) g =
                 map_option (\<lambda>x. x - consumed (menu s) g (completed_orders new))
                   (stock_of (inventory s) g)))"
proof (cases e)
  case (StartNewOrder c)
  with assms(2) have "menu s1 = menu s" "orders s1 = orders s @ []" "inventory s1 = inventory s"
    by (auto simp: start_new_order_def split: option.splits)
  then show ?thesis
    by (auto simp: consumed_def completed_orders_def option.map_ident intro!: exI [of _ "[]"])
next
  case (AddToOrder sel q)
  with assms(2) have "menu s1 = menu s" "orders s1 = orders s @ []" "inventory s1 = inventory s"
    by (auto simp: add_to_order_def split: option.splits if_splits sum.splits)
  then show ?thesis
    by (auto simp: consumed_def completed_orders_def option.map_ident intro!: exI [of _ "[]"])
next
  case CancelOrder
  show ?thesis
  proof (cases "current_order s")
    case None
    with CancelOrder assms(2) have "s1 = s" by (simp add: cancel_click_def)
    then show ?thesis
      by (auto simp: consumed_def completed_orders_def option.map_ident intro!: exI [of _ "[]"])
  next
    case (Some od)
    show ?thesis
    proof (cases "items od = []")
      case True
      with Some CancelOrder assms(2) have "s1 = s" by (simp add: cancel_click_def)
      then show ?thesis
        by (auto simp: consumed_def completed_orders_def option.map_ident
            intro!: exI [of _ "[]"])
    next
      case False
      with Some CancelOrder assms(2)
      have "menu s1 = menu s" "orders s1 = orders s @ [od\<lparr>status := Cancelled\<rparr>]"
        "inventory s1 = inventory s"
        by (auto simp: cancel_click_def cancel_order_def)
      then show ?thesis
        by (auto simp: consumed_def completed_orders_def option.map_ident
            intro!: exI [of _ "[od\<lparr>status := Cancelled\<rparr>]"])
    qed
  qed
next
  case CompleteOrder
  show ?thesis
  proof (cases "current_order s")
    case None
    with CompleteOrder assms(2) have "s1 = s" by (simp add: complete_click_def)
    then show ?thesis
      by (auto simp: consumed_def completed_orders_def option.map_ident intro!: exI [of _ "[]"])
  next
    case (Some od)
    show ?thesis
    proof (cases "items od = []")
      case True
      with Some CompleteOrder assms(2) have "s1 = s" by (simp add: complete_click_def)
      then show ?thesis
        by (auto simp: consumed_def completed_orders_def option.map_ident
            intro!: exI [of _ "[]"])
    next
      case False
      with Some CompleteOrder assms(2) obtain stock' where
        d: "deduct_items (menu s) (items od) (inventory s) = Inr stock'"
        and m: "menu s1 = menu s"
        and os: "orders s1 = orders s @ [od\<lparr>status := Completed\<rparr>]"
        and i: "inventory s1 = stock'"
        by (auto simp: complete_click_def complete_order_def split: sum.splits)
      have "\<forall>g. stock_of (inventory s1) g =
                 map_option (\<lambda>x. x - consumed (menu s) g
                    (completed_orders [od\<lparr>status := Completed\<rparr>]))
                   (stock_of (inventory s) g)"
        using stock_of_deduct_items [OF d]
        by (simp add: i consumed_def completed_orders_def)
      with m os show ?thesis by blast
    qed
  qed
next
  case (AddMenuItem n p c i)
  with assms(1) show ?thesis by (simp add: is_order_event_def)
next
  case (UpdateInventory n q u m)
  with assms(1) show ?thesis by (simp add: is_order_event_def)
qed

lemma order_run_effect:
  assumes "list_all is_order_event evs" and "run evs s = Inr s'"
  shows "menu s' = menu s \<and>
         (\<exists>new. orders s' = orders s @ new \<and>
            (\<forall>g. stock_of (inventory s') g =
                 map_option (\<lambda>x. x - consumed (menu s) g (completed_orders new))
                   (stock_of (inventory s) g)))"
  using assms
proof (induction evs arbitrary: s)
  case Nil
  then have "s' = s" by simp
  then show ?case
    by (auto simp: consumed_def completed_orders_def option.map_ident intro!: exI [of _ "[]"])
next
  case (Cons e es)
  from Cons.prems(1) have oe: "is_order_event e" and oes: "list_all is_order_event es"
    by simp_all
  show ?case
  proof (cases "step e s")
    case (Inl err)
    with Cons.prems(2) have "run es s = Inr s'" by (cases err) auto
    from Cons.IH [OF oes this] show ?thesis .
  next
    case (Inr s1)
    with Cons.prems(2) have r: "run es s1 = Inr s'" by simp
    from order_step_effect [OF oe Inr] obtain new1 where
      m1: "menu s1 = menu s" and o1: "orders s1 = orders s @ new1"
      and q1: "\<forall>g. stock_of (inventory s1) g =
                 map_option (\<lambda>x. x - consumed (menu s) g (completed_orders new1))
                   (stock_of (inventory s) g)"
      by blast
    from Cons.IH [OF oes r] obtain new2 where
      m2: "menu s' = menu s1" and o2: "orders s' = orders s1 @ new2"
      and q2: "\<forall>g. stock_of (inventory s') g =
                 map_option (\<lambda>x. x - consumed (menu s1) g (completed_orders new2))
                   (stock_of (inventory s1) g)"
      by blast
    have q: "\<forall>g. stock_of (inventory s') g =
                 map_option (\<lambda>x. x - consumed (menu s) g (completed_orders (new1 @ new2)))
                   (stock_of (inventory s) g)"
    proof
      fix g
      have "stock_of (inventory s') g =
          map_option (\<lambda>x. x - consumed (menu s) g (completed_orders new2))
            (map_option (\<lambda>x. x - consumed (menu s) g (completed_orders new1))
               (stock_of (inventory s) g))"
        using q1 q2 m1 by simp
      also have "\<dots> = map_option (\<lambda>x. x - consumed (menu s) g (completed_orders (new1 @ new2)))
                   (stock_of (inventory s) g)"
        by (simp add: option.map_comp comp_def consumed_append completed_orders_def algebra_simps)
      finally show "stock_of (inventory s') g =
                 map_option (\<lambda>x. x - consumed (menu s) g (completed_orders (new1 @ new2)))
                   (stock_of (inventory s) g)" .
    qed
    have o: "orders s' = orders s @ (new1 @ new2)" by (simp add: o1 o2)
    have m: "menu s' = menu s" by (simp add: m1 m2)
    from m o q show ?thesis by blast
  qed
qed

lemma other_events_never_decrease:
  assumes "e \<noteq> CompleteOrder" and "step e s = Inr s1"
    and "stock_of (inventory s) g = Some x"
  shows "\<exists>y. stock_of (inventory s1) g = Some y \<and> x \<le> y"
proof (cases e)
  case (StartNewOrder c)
  with assms show ?thesis by (auto simp: start_new_order_def split: option.splits)
next
  case (AddToOrder sel q)
  with assms show ?thesis
    by (auto simp: add_to_order_def split: option.splits if_splits sum.splits)
next
  case CompleteOrder
  with assms show ?thesis by simp
next
  case CancelOrder
  with assms show ?thesis
    by (auto simp: cancel_click_def cancel_order_def split: option.splits if_splits)
next
  case (AddMenuItem n p c i)
  with assms show ?thesis by (auto dest: add_menu_item_page_frame)
next
  case (UpdateInventory n q u m)
  with assms show ?thesis
    by (auto simp: display_inventory_submit_def stock_of_def map_of_dict_set
        split: option.splits if_splits)
qed

text \<open>
  Claim C5. Adding a line never changes the inventory; no action other than completing an
  order lowers a quantity of the inventory; and cancelling changes neither the inventory nor
  the daily sales. Over any sequence of order actions (start, add, complete,
  cancel), the menu stays the same, the history grows by the orders finished meanwhile, and
  every quantity in the inventory ends as its initial value minus what the recipes of the
  orders completed meanwhile consume of that ingredient; an ingredient that the inventory does
  not hold stays absent.
\<close>

theorem stock_changes_only_on_completion:
  "(\<forall>s1. step (AddToOrder selected_item qty) s = Inr s1 \<longrightarrow> inventory s1 = inventory s) \<and>
   (\<forall>e s1 g x. e \<noteq> CompleteOrder \<and> step e s = Inr s1 \<and> stock_of (inventory s) g = Some x \<longrightarrow>
      (\<exists>y. stock_of (inventory s1) g = Some y \<and> x \<le> y)) \<and>
   inventory (cancel_order od s) = inventory s \<and>
   daily_sales (cancel_order od s) = daily_sales s \<and>
   inventory (cancel_click s) = inventory s \<and>
   daily_sales (cancel_click s) = daily_sales s \<and>
   (list_all is_order_event evs \<and> run evs s = Inr s' \<longrightarrow>
      menu s' = menu s \<and>
      (\<exists>new. orders s' = orders s @ new \<and>
         (\<forall>g. stock_of (inventory s') g =
              map_option (\<lambda>x. x - consumed (menu s) g (completed_orders new))
                (stock_of (inventory s) g))))"
proof -
  have a: "\<forall>s1. step (AddToOrder selected_item qty) s = Inr s1 \<longrightarrow> inventory s1 = inventory s"
    by (auto simp: add_to_order_def split: option.splits if_splits sum.splits)
  have a': "\<forall>e s1 g x. e \<noteq> CompleteOrder \<and> step e s = Inr s1 \<and>
       stock_of (inventory s) g = Some x \<longrightarrow>
      (\<exists>y. stock_of (inventory s1) g = Some y \<and> x \<le> y)"
    using other_events_never_decrease by blast
  have b: "inventory (cancel_order od s) = inventory s"
    "daily_sales (cancel_order od s) = daily_sales s"
    by (simp_all add: cancel_order_def)
  have c: "inventory (cancel_click s) = inventory s"
    "daily_sales (cancel_click s) = daily_sales s"
    by (simp_all add: cancel_click_def cancel_order_def split: option.splits)
  have d: "list_all is_order_event evs \<and> run evs s = Inr s' \<longrightarrow>
      menu s' = menu s \<and>
      (\<exists>new. orders s' = orders s @ new \<and>
         (\<forall>g. stock_of (inventory s') g =
              map_option (\<lambda>x. x - consumed (menu s) g (completed_orders new))
                (stock_of (inventory s) g)))"
    using order_run_effect by blast
  from a a' b c d show ?thesis by (intro conjI)
qed

lemma run_two_orders:
  "run [StartNewOrder ''Ada'', AddToOrder ''Espresso'' 3, CompleteOrder,
        StartNewOrder ''Bob'', AddToOrder ''Latte'' 2, CancelOrder,
        StartNewOrder ''Cy'', AddToOrder ''Green Tea'' 6, AddToOrder ''Espresso'' 1,
        CompleteOrder] init_session_state = Inr two_orders_session"
  by (simp add: two_orders_session_def session_eval_defs)

lemma two_orders_history:
  "map (\<lambda>od. (status od, map (\<lambda>l. (l_name l, l_quantity l)) (items od)))
     (orders two_orders_session) =
     [(Completed, [(''Espresso'', 3)]), (Cancelled, [(''Latte'', 2)]),
      (Completed, [(''Espresso'', 1)])]"
  by (simp add: two_orders_session_def session_eval_defs)

lemma two_orders_orders:
  "orders two_orders_session =
     [\<lparr>order_id = 1, customer_name = ''Ada'',
       items = [\<lparr>l_name = ''Espresso'', l_price = 5 / 2, l_quantity = 3,
                 l_category = ''Coffee'', l_subtotal = 15 / 2\<rparr>],
       total = 15 / 2, status = Completed\<rparr>,
      \<lparr>order_id = 2, customer_name = ''Bob'',
       items = [\<lparr>l_name = ''Latte'', l_price = 9 / 2, l_quantity = 2,
                 l_category = ''Coffee'', l_subtotal = 9\<rparr>],
       total = 9, status = Cancelled\<rparr>,
      \<lparr>order_id = 3, customer_name = ''Cy'',
       items = [\<lparr>l_name = ''Espresso'', l_price = 5 / 2, l_quantity = 1,
                 l_category = ''Coffee'', l_subtotal = 5 / 2\<rparr>],
       total = 5 / 2, status = Completed\<rparr>]"
  by (simp add: two_orders_session_def session_eval_defs)

lemma init_stock_of:
  "stock_of (inventory init_session_state) ''Coffee beans'' = Some 100"
  "stock_of (inventory init_session_state) ''Milk'' = Some 50"
  by (simp_all add: stock_of_def init_session_state_def setup_default_inventory_def
      default_inventory_def)

lemma init_menu_Latte:
  "map_of (menu init_session_state) ''Latte'' =
     Some \<lparr>m_name = ''Latte'', m_price = 9 / 2, m_category = ''Coffee'',
           m_ingredients = [''Coffee beans'', ''Milk'', ''Water'']\<rparr>"
  by (simp add: init_session_state_def setup_default_menu_def default_items_def)

theorem stock_changes_only_on_completion_witness:
  "run [StartNewOrder ''Ada'', AddToOrder ''Espresso'' 3, CompleteOrder,
        StartNewOrder ''Bob'', AddToOrder ''Latte'' 2, CancelOrder,
        StartNewOrder ''Cy'', AddToOrder ''Green Tea'' 6, AddToOrder ''Espresso'' 1,
        CompleteOrder] init_session_state = Inr two_orders_session \<and>
   map status (orders two_orders_session) = [Completed, Cancelled, Completed] \<and>
   consumed (menu init_session_state) ''Coffee beans''
     (completed_orders (orders two_orders_session)) = 4 \<and>
   stock_of (inventory init_session_state) ''Coffee beans'' = Some 100 \<and>
   stock_of (inventory two_orders_session) ''Coffee beans'' = Some 96 \<and>
   stock_of (inventory two_orders_session) ''Milk'' = Some 50"
proof -
  let ?evs = "[StartNewOrder ''Ada'', AddToOrder ''Espresso'' 3, CompleteOrder,
        StartNewOrder ''Bob'', AddToOrder ''Latte'' 2, CancelOrder,
        StartNewOrder ''Cy'', AddToOrder ''Green Tea'' 6, AddToOrder ''Espresso'' 1,
        CompleteOrder]"
  have oe: "list_all is_order_event ?evs \<and> run ?evs init_session_state = Inr two_orders_session"
    using run_two_orders by (simp add: is_order_event_def)
  from stock_changes_only_on_completion [of _ _ init_session_state _ ?evs two_orders_session,
      THEN conjunct2, THEN conjunct2, THEN conjunct2, THEN conjunct2, THEN conjunct2,
      THEN conjunct2, rule_format, OF oe]
  obtain new where
    n: "orders two_orders_session = orders init_session_state @ new"
    and q: "\<forall>g. stock_of (inventory two_orders_session) g =
              map_option (\<lambda>x. x - consumed (menu init_session_state) g (completed_orders new))
                (stock_of (inventory init_session_state) g)"
    by blast
  have new: "new = orders two_orders_session"
    using n by (simp add: init_fresh)
  have cb: "consumed (menu init_session_state) ''Coffee beans''
     (completed_orders (orders two_orders_session)) = 4"
    by (simp add: consumed_def line_uses_def completed_orders_def two_orders_orders
        init_menu_Espresso)
  have mk: "consumed (menu init_session_state) ''Milk''
     (completed_orders (orders two_orders_session)) = 0"
    by (simp add: consumed_def line_uses_def completed_orders_def two_orders_orders
        init_menu_Espresso)
  have s1: "stock_of (inventory two_orders_session) ''Coffee beans'' = Some 96"
    using q [rule_format, of "''Coffee beans''"] by (simp add: new cb init_stock_of)
  have s2: "stock_of (inventory two_orders_session) ''Milk'' = Some 50"
    using q [rule_format, of "''Milk''"] by (simp add: new mk init_stock_of)
  have st: "map status (orders two_orders_session) = [Completed, Cancelled, Completed]"
    by (simp add: two_orders_orders)
  from run_two_orders st cb init_stock_of(1) s1 s2 show ?thesis by (intro conjI)
qed

subsection \<open>Completion finds every recipe\<close>

text \<open>
  Menu entries are never removed and a line is added only for an entry of the menu, so in a
  reachable session the lookup in \<^verbatim>\<open>complete_order\<close> never raises \<^verbatim>\<open>KeyError\<close>.
\<close>

lemma deduct_items_known:
  "list_all (\<lambda>l. map_of mn (l_name l) \<noteq> None) ls \<Longrightarrow> \<exists>stock'. deduct_items mn ls stock = Inr stock'"
  by (induction ls arbitrary: stock) auto

lemma lines_known_step:
  assumes "lines_known s" and "menu_names_ok s" and "step e s = Inr s'"
  shows "lines_known s'"
proof (cases e)
  case (StartNewOrder c)
  with assms show ?thesis
    by (auto simp: lines_known_def start_new_order_def Order_init_def split: option.splits)
next
  case (AddToOrder sel q)
  show ?thesis
  proof (cases "current_order s")
    case None
    with AddToOrder assms show ?thesis by (auto simp: add_to_order_def)
  next
    case (Some od)
    show ?thesis
    proof (cases "sel = []")
      case True
      with AddToOrder Some assms show ?thesis by (auto simp: add_to_order_def)
    next
      case False
      with AddToOrder Some assms(3) obtain menu_item where
        mi: "map_of (menu s) sel = Some menu_item"
        and s': "s' = s\<lparr>current_order := Some (add_item od menu_item q)\<rparr>"
        by (auto simp: add_to_order_def add_line_def split: option.splits sum.splits)
      have "m_name menu_item = sel" using assms(2) mi by (rule menu_lookup_name)
      with mi s' Some assms(1) show ?thesis
        by (auto simp: lines_known_def add_item_def)
    qed
  qed
next
  case CompleteOrder
  with assms show ?thesis
    by (auto simp: lines_known_def complete_click_def complete_order_def
        split: option.splits if_splits sum.splits)
next
  case CancelOrder
  with assms show ?thesis
    by (auto simp: lines_known_def cancel_click_def cancel_order_def
        split: option.splits if_splits)
next
  case (AddMenuItem n p c i)
  with assms show ?thesis
    by (auto simp: lines_known_def add_menu_item_page_def map_of_dict_set list_all_iff
        split: option.splits if_splits)
next
  case (UpdateInventory n q u m)
  with assms show ?thesis by (auto simp: lines_known_def split: option.splits)
qed

lemma reachable_lines_known: "reachable s \<Longrightarrow> lines_known s"
proof (induction rule: reachable.induct)
  case reachable_init
  show ?case by (simp add: lines_known_def init_fresh)
next
  case (reachable_step s e s')
  then show ?case using lines_known_step reachable_menu_names_ok by blast
qed

lemma complete_click_succeeds:
  assumes "reachable s"
  shows "\<exists>s'. step CompleteOrder s = Inr s'"
proof (cases "current_order s")
  case None
  then show ?thesis by (simp add: complete_click_def)
next
  case (Some od)
  with reachable_lines_known [OF assms]
  have "list_all (\<lambda>l. map_of (menu s) (l_name l) \<noteq> None) (items od)"
    by (simp add: lines_known_def)
  from deduct_items_known [OF this, of "inventory s"] obtain stock' where
    "deduct_items (menu s) (items od) (inventory s) = Inr stock'" by blast
  with Some show ?thesis by (simp add: complete_click_def complete_order_def)
qed

subsection \<open>Popular items\<close>

lemma name_total_absent: "n \<notin> l_name ` set ls \<Longrightarrow> name_total ls n = 0"
  by (induction ls) (auto simp: name_total_def)

lemma name_total_Cons:
  "name_total (l # ls) n = (if l_name l = n then l_quantity l else 0) + name_total ls n"
  by (simp add: name_total_def)

lemma count_lines_lookup:
  "map_of (count_lines ls item_count) n =
     (if n \<in> l_name ` set ls
      then Some ((case map_of item_count n of None \<Rightarrow> 0 | Some c \<Rightarrow> c) + name_total ls n)
      else map_of item_count n)"
proof (induction ls arbitrary: item_count)
  case Nil
  show ?case by simp
next
  case (Cons l ls)
  let ?ic = "dict_set (l_name l)
          ((case map_of item_count (l_name l) of None \<Rightarrow> 0 | Some c \<Rightarrow> c) + l_quantity l)
          item_count"
  have step: "map_of (count_lines (l # ls) item_count) n = map_of (count_lines ls ?ic) n"
    by simp
  show ?case
  proof (cases "l_name l = n")
    case True
    show ?thesis
    proof (cases "n \<in> l_name ` set ls")
      case True
      with \<open>l_name l = n\<close> show ?thesis
        unfolding step Cons.IH [of ?ic]
        by (simp add: map_of_dict_set name_total_Cons)
    next
      case False
      with \<open>l_name l = n\<close> show ?thesis
        unfolding step Cons.IH [of ?ic]
        by (simp add: map_of_dict_set name_total_Cons name_total_absent)
    qed
  next
    case False
    then show ?thesis
      unfolding step Cons.IH [of ?ic]
      by (auto simp: map_of_dict_set name_total_Cons)
  qed
qed

lemma distinct_keys_count_lines:
  "distinct (keys item_count) \<Longrightarrow> distinct (keys (count_lines ls item_count))"
  by (induction ls arbitrary: item_count) (simp_all add: keys_dict_set)

lemma count_orders_lines:
  "count_orders os item_count = count_lines (concat (map items os)) item_count"
proof (induction os arbitrary: item_count)
  case Nil
  show ?case by simp
next
  case (Cons od os)
  have "count_lines (xs @ ys) ic = count_lines ys (count_lines xs ic)" for xs ys ic
    by (induction xs arbitrary: ic) simp_all
  then show ?case by (simp add: Cons.IH)
qed

lemma item_count_lookup:
  "map_of (count_orders (completed_orders os) []) n =
     (if n \<in> l_name ` set (sold_lines os) then Some (quantity_sold os n) else None)"
  by (simp add: count_orders_lines count_lines_lookup sold_lines_def quantity_sold_def)

lemma item_count_distinct: "distinct (keys (count_orders (completed_orders os) []))"
  unfolding count_orders_lines
  by (rule distinct_keys_count_lines) (simp add: keys_def)

lemma item_count_empty:
  "count_orders (completed_orders os) [] = [] \<longleftrightarrow> sold_lines os = []"
proof
  assume e: "count_orders (completed_orders os) [] = []"
  show "sold_lines os = []"
  proof (rule ccontr)
    assume "sold_lines os \<noteq> []"
    then obtain l where l: "l \<in> set (sold_lines os)" by (cases "sold_lines os") auto
    then have "map_of (count_orders (completed_orders os) []) (l_name l)
                 = Some (quantity_sold os (l_name l))"
      by (simp add: item_count_lookup)
    with e show False by simp
  qed
next
  assume "sold_lines os = []"
  then show "count_orders (completed_orders os) [] = []"
    by (simp add: count_orders_lines sold_lines_def [symmetric])
qed

lemma sold_lines_empty_completed: "completed_orders os = [] \<Longrightarrow> sold_lines os = []"
  by (simp add: sold_lines_def)

lemma popular_items_None:
  "popular_items sort_values os = None \<longleftrightarrow> sold_lines os = []"
  using item_count_empty [of os] sold_lines_empty_completed [of os]
  by (auto simp: popular_items_def Let_def)

lemma popular_items_Some:
  assumes "popular_items sort_values os = Some r"
  shows "r = sort_values (count_orders (completed_orders os) [])"
  using assms by (auto simp: popular_items_def Let_def split: if_splits)

lemma sorted_counts:
  assumes st: "sorts_table sort_values (count_orders (completed_orders os) [])"
    and r: "popular_items sort_values os = Some r"
  shows "distinct (keys r) \<and> sorted_wrt (\<lambda>a b. snd b \<le> snd a) r \<and>
         (\<forall>n. map_of r n =
            (if n \<in> l_name ` set (sold_lines os) then Some (quantity_sold os n) else None))"
proof -
  let ?ic = "count_orders (completed_orders os) []"
  have req: "r = sort_values ?ic" using r by (rule popular_items_Some)
  have ms: "mset r = mset ?ic" and so: "sorted_wrt (\<lambda>a b. snd b \<le> snd a) r"
    using st by (simp_all add: req sorts_table_def)
  have "mset (map fst r) = mset (map fst ?ic)" using ms by simp
  then have dr: "distinct (map fst r)"
    using item_count_distinct [of os] mset_eq_imp_distinct_iff [of "map fst r" "map fst ?ic"]
    by (simp add: keys_def)
  have "set r = set ?ic" using ms by (rule mset_eq_setD)
  then have "map_of r = map_of ?ic"
    using map_of_inject_set [OF dr item_count_distinct [of os, unfolded keys_def]] by simp
  then have lk: "\<forall>n. map_of r n =
            (if n \<in> l_name ` set (sold_lines os) then Some (quantity_sold os n) else None)"
    by (simp add: item_count_lookup)
  from dr so lk show ?thesis by (simp add: keys_def)
qed

lemma two_element_sorted:
  fixes a b :: "string \<times> int"
  assumes "mset r = mset [a, b]" and "sorted_wrt (\<lambda>x y. snd y \<le> snd x) r"
    and "snd b < snd a"
  shows "r = [a, b]"
proof -
  from assms(1) have len: "length r = 2" using mset_eq_length by fastforce
  then obtain x y where r: "r = [x, y]"
    by (cases r; cases "tl r") auto
  from assms(1) have "set r = {a, b}" using mset_eq_setD by fastforce
  with r have xy: "{x, y} = {a, b}" by simp
  from assms(2) r have le: "snd y \<le> snd x" by simp
  from xy have "(x = a \<and> y = b) \<or> (x = b \<and> y = a)" by (auto simp: doubleton_eq_iff)
  with le assms(3) r show ?thesis by auto
qed

lemma muffin_latte_table:
  assumes s1: "status o1 = Completed" and s2: "status o2 = Completed"
    and i1: "map (\<lambda>l. (l_name l, l_quantity l)) (items o1) = [(''Muffin'', 2), (''Latte'', 1)]"
    and i2: "map (\<lambda>l. (l_name l, l_quantity l)) (items o2) = [(''Muffin'', 2), (''Latte'', 1)]"
  shows "completed_orders [o1, o2] = [o1, o2]"
    and "count_orders [o1, o2] [] = [(''Muffin'', 4), (''Latte'', 2)]"
proof -
  from i1 obtain a1 b1 where a1: "items o1 = [a1, b1]" "l_name a1 = ''Muffin''"
    "l_quantity a1 = 2" "l_name b1 = ''Latte''" "l_quantity b1 = 1"
    by (auto simp: map_eq_Cons_conv)
  from i2 obtain a2 b2 where a2: "items o2 = [a2, b2]" "l_name a2 = ''Muffin''"
    "l_quantity a2 = 2" "l_name b2 = ''Latte''" "l_quantity b2 = 1"
    by (auto simp: map_eq_Cons_conv)
  show "completed_orders [o1, o2] = [o1, o2]"
    by (simp add: completed_orders_def s1 s2)
  show "count_orders [o1, o2] [] = [(''Muffin'', 4), (''Latte'', 2)]"
    by (simp add: a1 a2)
qed

lemma muffin_latte_scenario:
  assumes st: "sorts_table sort_values (count_orders (completed_orders [o1, o2]) [])"
    and s1: "status o1 = Completed" and s2: "status o2 = Completed"
    and i1: "map (\<lambda>l. (l_name l, l_quantity l)) (items o1) = [(''Muffin'', 2), (''Latte'', 1)]"
    and i2: "map (\<lambda>l. (l_name l, l_quantity l)) (items o2) = [(''Muffin'', 2), (''Latte'', 1)]"
  shows "popular_items sort_values [o1, o2] = Some [(''Muffin'', 4), (''Latte'', 2)]"
proof -
  note co = muffin_latte_table(1) [OF s1 s2 i1 i2]
  note ic = muffin_latte_table(2) [OF s1 s2 i1 i2]
  let ?r = "sort_values [(''Muffin'', 4), (''Latte'', 2)]"
  have "mset ?r = mset [(''Muffin'', 4), (''Latte'', 2)]"
    and "sorted_wrt (\<lambda>x y. snd y \<le> snd x) ?r"
    using st unfolding co ic sorts_table_def by simp_all
  then have "?r = [(''Muffin'', 4), (''Latte'', 2)]"
    by (rule two_element_sorted) simp
  then show ?thesis
    unfolding popular_items_def Let_def co ic by simp
qed

lemma muffin_latte_order_lines:
  "status (muffin_latte_order oid) = Completed"
  "map (\<lambda>l. (l_name l, l_quantity l)) (items (muffin_latte_order oid))
     = [(''Muffin'', 2), (''Latte'', 1)]"
  by (simp_all add: muffin_latte_order_def add_items_def add_item_def Order_init_def)

lemma tie_session_orders:
  "orders tie_session =
     [\<lparr>order_id = 1, customer_name = ''Walk-in'',
       items =
         [\<lparr>l_name = ''Espresso'', l_price = 5 / 2, l_quantity = 1, l_category = ''Coffee'',
            l_subtotal = 5 / 2\<rparr>,
          \<lparr>l_name = ''Americano'', l_price = 3, l_quantity = 1, l_category = ''Coffee'',
            l_subtotal = 3\<rparr>,
          \<lparr>l_name = ''Cappuccino'', l_price = 4, l_quantity = 1, l_category = ''Coffee'',
            l_subtotal = 4\<rparr>,
          \<lparr>l_name = ''Latte'', l_price = 9 / 2, l_quantity = 1, l_category = ''Coffee'',
            l_subtotal = 9 / 2\<rparr>,
          \<lparr>l_name = ''Mocha'', l_price = 5, l_quantity = 1, l_category = ''Coffee'',
            l_subtotal = 5\<rparr>,
          \<lparr>l_name = ''Croissant'', l_price = 7 / 2, l_quantity = 1, l_category = ''Pastry'',
            l_subtotal = 7 / 2\<rparr>,
          \<lparr>l_name = ''Muffin'', l_price = 11 / 4, l_quantity = 1, l_category = ''Pastry'',
            l_subtotal = 11 / 4\<rparr>,
          \<lparr>l_name = ''Green Tea'', l_price = 2, l_quantity = 1, l_category = ''Tea'',
            l_subtotal = 2\<rparr>,
          \<lparr>l_name = ''Bagel'', l_price = 3, l_quantity = 1, l_category = ''Pastry'',
            l_subtotal = 3\<rparr>,
          \<lparr>l_name = ''Brownie'', l_price = 3, l_quantity = 1, l_category = ''Pastry'',
            l_subtotal = 3\<rparr>,
          \<lparr>l_name = ''Cookie'', l_price = 3, l_quantity = 1, l_category = ''Pastry'',
            l_subtotal = 3\<rparr>,
          \<lparr>l_name = ''Donut'', l_price = 3, l_quantity = 1, l_category = ''Pastry'',
            l_subtotal = 3\<rparr>,
          \<lparr>l_name = ''Scone'', l_price = 3, l_quantity = 1, l_category = ''Pastry'',
            l_subtotal = 3\<rparr>,
          \<lparr>l_name = ''Chai'', l_price = 3, l_quantity = 1, l_category = ''Tea'',
            l_subtotal = 3\<rparr>,
          \<lparr>l_name = ''Cocoa'', l_price = 3, l_quantity = 1, l_category = ''Coffee'',
            l_subtotal = 3\<rparr>,
          \<lparr>l_name = ''Cortado'', l_price = 3, l_quantity = 1, l_category = ''Coffee'',
            l_subtotal = 3\<rparr>,
          \<lparr>l_name = ''Macchiato'', l_price = 3, l_quantity = 1, l_category = ''Coffee'',
            l_subtotal = 3\<rparr>,
          \<lparr>l_name = ''Affogato'', l_price = 3, l_quantity = 1, l_category = ''Coffee'',
            l_subtotal = 3\<rparr>],
       total = 229 / 4, status = Completed\<rparr>]"
  by (simp add: tie_session_def tie_actions_def init_session_state_def setup_default_menu_def
      default_items_def setup_default_inventory_def default_inventory_def
      start_new_order_def add_to_order_def add_line_def add_item_def Order_init_def
      complete_click_def complete_order_def add_menu_item_page_def
      ingredient_list_def strip_def isspace_def)

lemma nargsort_descending_ties:
  "nargsort_descending [1, 1, 1, 1, 1, 1, 1, 1, 1, 1, 1, 1, 1, 1, 1, 1, 1, 1]
     = [0, 1, 16, 15, 14, 13, 12, 11, 10, 9, 8, 7, 6, 5, 4, 3, 2, 17]"
  by code_simp

text \<open>
  Claim C8, as the code has it. Whenever the sort returns the rows of the table of counts
  rearranged in order of non-increasing quantity, as \<^verbatim>\<open>sort_values\<close> promises: nothing is
  shown exactly when the completed orders have no lines; otherwise the table has one row for
  each item name that occurs in a line of a completed order (cancelled and pending orders do
  not count), the row holds the sum of the quantities of those lines, and the rows are in order
  of non-increasing quantity. The order of rows with equal quantities is whatever the library
  sort yields; it is not the order of first encounter in general. In particular, two completed
  orders of 2 Muffin and 1 Latte each give Muffin 4 before Latte 2.
\<close>

theorem popular_items_sorted_counts:
  assumes "sorts_table sort_values (count_orders (completed_orders os) [])"
  shows "(popular_items sort_values os = None \<longleftrightarrow> sold_lines os = []) \<and>
         (\<forall>r. popular_items sort_values os = Some r \<longrightarrow>
            distinct (keys r) \<and>
            sorted_wrt (\<lambda>a b. snd b \<le> snd a) r \<and>
            (\<forall>n. map_of r n =
               (if n \<in> l_name ` set (sold_lines os) then Some (quantity_sold os n)
                else None))) \<and>
         (\<forall>o1 o2.
            os = [o1, o2] \<and> status o1 = Completed \<and> status o2 = Completed \<and>
            map (\<lambda>l. (l_name l, l_quantity l)) (items o1) = [(''Muffin'', 2), (''Latte'', 1)] \<and>
            map (\<lambda>l. (l_name l, l_quantity l)) (items o2) = [(''Muffin'', 2), (''Latte'', 1)] \<longrightarrow>
            popular_items sort_values os = Some [(''Muffin'', 4), (''Latte'', 2)])"
proof (intro conjI allI impI)
  show "popular_items sort_values os = None \<longleftrightarrow> sold_lines os = []"
    by (rule popular_items_None)
next
  fix r assume r: "popular_items sort_values os = Some r"
  note sc = sorted_counts [OF assms r]
  from sc show "distinct (keys r)" by (rule conjunct1)
  from sc show "sorted_wrt (\<lambda>a b. snd b \<le> snd a) r" by (rule conjunct2 [THEN conjunct1])
  fix n
  from sc show "map_of r n =
               (if n \<in> l_name ` set (sold_lines os) then Some (quantity_sold os n)
                else None)"
    by (simp only:)
next
  fix o1 o2 :: Order
  assume h: "os = [o1, o2] \<and> status o1 = Completed \<and> status o2 = Completed \<and>
            map (\<lambda>l. (l_name l, l_quantity l)) (items o1) = [(''Muffin'', 2), (''Latte'', 1)] \<and>
            map (\<lambda>l. (l_name l, l_quantity l)) (items o2) = [(''Muffin'', 2), (''Latte'', 1)]"
  then have os: "os = [o1, o2]" by (rule conjunct1)
  from assms have st: "sorts_table sort_values (count_orders (completed_orders [o1, o2]) [])"
    unfolding os .
  from h show "popular_items sort_values os = Some [(''Muffin'', 4), (''Latte'', 2)]"
    unfolding os using muffin_latte_scenario [OF st, of ] by (simp only:)
qed

lemma sort_values_descending_two:
  "sort_values_descending [(''Muffin'', 4), (''Latte'', 2)] = [(''Muffin'', 4), (''Latte'', 2)]"
  by code_simp

theorem popular_items_sorted_counts_witness:
  "sorts_table sort_values_descending
     (count_orders (completed_orders [muffin_latte_order 1, muffin_latte_order 2]) []) \<and>
   popular_items sort_values_descending [muffin_latte_order 1, muffin_latte_order 2]
     = Some [(''Muffin'', 4), (''Latte'', 2)]"
proof -
  note t = muffin_latte_table [OF muffin_latte_order_lines(1) [of 1]
      muffin_latte_order_lines(1) [of 2] muffin_latte_order_lines(2) [of 1]
      muffin_latte_order_lines(2) [of 2]]
  have st: "sorts_table sort_values_descending
     (count_orders (completed_orders [muffin_latte_order 1, muffin_latte_order 2]) [])"
    unfolding t sorts_table_def sort_values_descending_two by simp
  have "popular_items sort_values_descending [muffin_latte_order 1, muffin_latte_order 2]
     = Some [(''Muffin'', 4), (''Latte'', 2)]"
    using popular_items_sorted_counts [OF st, THEN conjunct2, THEN conjunct2, rule_format,
        of "muffin_latte_order 1" "muffin_latte_order 2"]
    by (simp add: muffin_latte_order_lines)
  with st show ?thesis by (rule conjI)
qed

text \<open>
  The claim as stated fails for the tie-break: when eighteen items have been sold once each,
  the default sort of the library puts the items met third to seventeenth in the reverse of
  the order in which they were met.
\<close>

theorem tie_order_not_first_encountered:
  "map l_name (sold_lines (orders tie_session)) =
       [''Espresso'', ''Americano'', ''Cappuccino'', ''Latte'', ''Mocha'', ''Croissant'',
        ''Muffin'', ''Green Tea'', ''Bagel'', ''Brownie'', ''Cookie'', ''Donut'',
        ''Scone'', ''Chai'', ''Cocoa'', ''Cortado'', ''Macchiato'', ''Affogato''] \<and>
   popular_items sort_values_descending (orders tie_session) =
     Some
       [(''Espresso'', 1), (''Americano'', 1), (''Macchiato'', 1), (''Cortado'', 1),
        (''Cocoa'', 1), (''Chai'', 1), (''Scone'', 1), (''Donut'', 1), (''Cookie'', 1),
        (''Brownie'', 1), (''Bagel'', 1), (''Green Tea'', 1), (''Muffin'', 1),
        (''Croissant'', 1), (''Mocha'', 1), (''Latte'', 1), (''Cappuccino'', 1),
        (''Affogato'', 1)]"
proof -
  have a: "map l_name (sold_lines (orders tie_session)) =
       [''Espresso'', ''Americano'', ''Cappuccino'', ''Latte'', ''Mocha'', ''Croissant'',
        ''Muffin'', ''Green Tea'', ''Bagel'', ''Brownie'', ''Cookie'', ''Donut'',
        ''Scone'', ''Chai'', ''Cocoa'', ''Cortado'', ''Macchiato'', ''Affogato'']"
    by (simp add: tie_session_orders sold_lines_def completed_orders_def)
  have b: "popular_items sort_values_descending (orders tie_session) =
     Some
       [(''Espresso'', 1), (''Americano'', 1), (''Macchiato'', 1), (''Cortado'', 1),
        (''Cocoa'', 1), (''Chai'', 1), (''Scone'', 1), (''Donut'', 1), (''Cookie'', 1),
        (''Brownie'', 1), (''Bagel'', 1), (''Green Tea'', 1), (''Muffin'', 1),
        (''Croissant'', 1), (''Mocha'', 1), (''Latte'', 1), (''Cappuccino'', 1),
        (''Affogato'', 1)]"
    by (simp add: tie_session_orders popular_items_def completed_orders_def Let_def
        sort_values_descending_def nargsort_descending_ties)
  from a b show ?thesis by (rule conjI)
qed

end
